theory Spec2Isabelle
  imports Complex_Main "HOL-Library.Multiset"
begin

section \<open>Data model of the payment controller\<close>

text \<open>
  The development embeds \<^verbatim>\<open>src/controllers/PaymentController.js\<close>: the three request
  handlers \<^verbatim>\<open>paymentProcess\<close>, \<^verbatim>\<open>checkOutSession\<close> and \<^verbatim>\<open>paymentVerify\<close>.
  Document references (Mongo ids, provider ids) are strings. Quantities and
  stock are integers (\<open>int\<close>); the arithmetic on prices and discounts is that of IEEE 754
  doubles, as in JavaScript.
\<close>

type_synonym ref = string

text \<open>An element of \<^verbatim>\<open>req.body.cart\<close>. The record is extensible: its \<open>more\<close> part stands
  for every further field the buyer may put on a cart element. The price and the discount
  are number literals of the request body, held here by their exact value; the handler
  computes with the doubles nearest to them. Cart elements whose price or discount is
  missing or is not a number are outside the model.\<close>

record cart_item =
  ci_id :: ref
  ci_title :: string
  ci_size :: string
  ci_color :: string
  ci_quantity :: int
  ci_price :: rat
  ci_discount :: rat

text \<open>An element of \<^verbatim>\<open>orderData\<close>, which is also the element \<^verbatim>\<open>ctr\<close> that the webhook
  reads back from the customer metadata: fields \<^verbatim>\<open>_id, size, color, quantity, userId\<close>.\<close>

record line =
  l_id :: ref
  l_size :: string
  l_color :: string
  l_quantity :: int
  l_userId :: ref

record user =
  u_id :: ref
  u_email :: string

text \<open>The document handed to \<^verbatim>\<open>OrderModel.create\<close>.\<close>

record order =
  o_productId :: ref
  o_userId :: ref
  o_size :: string
  o_color :: string
  o_quantities :: int
  o_address :: string
  o_review :: bool

text \<open>Modelled from the spec: the schema file of \<^verbatim>\<open>ProductModel\<close> is not among the
  sources; the controller only reads and writes \<^verbatim>\<open>stock\<close>. The other fields are the ones
  the specification lists for a product.\<close>

record product =
  p_title :: string
  p_price :: rat
  p_discount :: rat
  p_stock :: int
  p_images :: "string list"
  p_sizes :: "string list"
  p_colors :: "string list"
  p_category :: string
  p_description :: string

datatype payload =
    NoBody
  | Text string
  | Json_string string
  | Json_error string
  | Json_url string
  | Json_status string string

datatype reply = Reply (status: nat) (payload: payload)

text \<open>The collections the controller touches, together with the response object of the
  request being served (\<open>None\<close> until something has been sent).\<close>

record state =
  orders :: "order list"
  products :: "ref \<rightharpoonup> product"
  users :: "user list"
  response :: "reply option"

text \<open>Sending on a response whose headers are already out throws inside Express and does
  not change what the client received.\<close>

definition send :: "reply \<Rightarrow> state \<Rightarrow> state" where
  "send r st = (if response st = None then st\<lparr>response := Some r\<rparr> else st)"

subsection \<open>The payment provider and the runtime\<close>

record stripe_customer =
  c_id :: ref
  c_email :: string
  c_cart :: "string option"

record checkout_session =
  s_id :: ref
  s_url :: string
  s_payment_status :: string

text \<open>The parts of a verified event that the handler reads: \<^verbatim>\<open>event.type\<close>,
  \<^verbatim>\<open>event.data.object.customer\<close> and \<^verbatim>\<open>event.data.object.customer_details.address\<close>.\<close>

record event =
  e_type :: string
  e_customer :: ref
  e_address :: string

record customer_params =
  cp_email :: string
  cp_cart :: string

record line_item =
  li_currency :: string
  li_name :: string
  li_unit_amount_decimal :: string
  li_quantity :: int

record session_params =
  sp_allowed_countries :: "string list"
  sp_shipping_amount :: int
  sp_shipping_currency :: string
  sp_shipping_display_name :: string
  sp_delivery_minimum :: nat
  sp_delivery_maximum :: nat
  sp_line_items :: "line_item list"
  sp_customer :: ref
  sp_mode :: string
  sp_success_url :: string
  sp_cancel_url :: string

text \<open>The Stripe client, \<^verbatim>\<open>JSON\<close> and \<^verbatim>\<open>process.env\<close> are outside the repository. They are
  parameters: a provider call either throws (\<open>Inl\<close> with the error message) or returns;
  \<open>JSON_parse\<close> is \<open>None\<close> when \<^verbatim>\<open>JSON.parse\<close> throws or the value is not an array
  (\<^verbatim>\<open>forEach\<close> is then not a function). The elements of an array are taken to be line
  objects: an array with a \<^verbatim>\<open>null\<close> element, on which the callback itself throws inside
  its \<^verbatim>\<open>try\<close> and answers 500 before the acknowledgement, is outside the model.
  \<open>Number_toString\<close> is \<^verbatim>\<open>String(x)\<close> for a finite number.\<close>

record env =
  CLIENT :: string
  ENDPOINTSECRET :: string
  constructEvent :: "string \<Rightarrow> string option \<Rightarrow> string \<Rightarrow> string + event"
  customers_create :: "customer_params \<Rightarrow> string + stripe_customer"
  customers_retrieve :: "ref \<Rightarrow> string + stripe_customer"
  sessions_create :: "session_params \<Rightarrow> string + checkout_session"
  sessions_retrieve :: "ref \<Rightarrow> string + checkout_session"
  JSON_stringify :: "line list \<Rightarrow> string"
  JSON_parse :: "string \<Rightarrow> line list option"
  Number_toString :: "rat \<Rightarrow> string"

text \<open>An exception that leaves an \<^verbatim>\<open>async\<close> handler: the handler's promise is rejected,
  the handler has sent nothing and has written nothing.\<close>

datatype js_error = ProviderError string | SyntaxError

section \<open>JavaScript numbers\<close>

text \<open>
  A JavaScript number is an IEEE 754 double. A finite double is modelled by its exact
  value, a rational; the two zeros are one value, which the handlers cannot tell apart
  (nothing divides by a computed number, and \<^verbatim>\<open>toFixed\<close> prints both alike). Every
  arithmetic operation gives the double nearest to the exact result, ties to the even
  significand, with gradual underflow, and an infinity when that double would be
  \<open>2 ^ 1024\<close> or more in size.
\<close>

datatype number = Finite rat | PosInfinity | NegInfinity | NaN

text \<open>The number of binary digits of a positive integer.\<close>

function bits :: "int \<Rightarrow> nat" where
  "bits n = (if n \<le> 0 then 0 else Suc (bits (n div 2)))"
  by pat_completeness auto
termination
  by (relation "measure nat") auto

declare bits.simps [simp del]

definition pow2 :: "int \<Rightarrow> rat" where
  "pow2 e = (if 0 \<le> e then 2 ^ nat e else 1 / 2 ^ nat (- e))"

text \<open>For a positive \<open>x\<close>, the \<open>e\<close> with \<open>2 ^ e \<le> x < 2 ^ (e + 1)\<close>.\<close>

definition exponent :: "rat \<Rightarrow> int" where
  "exponent x =
     (if 1 \<le> x then int (bits \<lfloor>x\<rfloor>) - 1
      else let e = - int (bits \<lfloor>1 / x\<rfloor>)
           in if pow2 (e + 1) \<le> x then e + 1 else e)"

text \<open>The nearest integer, the even one of two that are equally near.\<close>

definition ties_even :: "rat \<Rightarrow> int" where
  "ties_even m =
     (let f = \<lfloor>m\<rfloor>; r = m - of_int f
      in if r < 1 / 2 then f else if 1 / 2 < r then f + 1 else if even f then f else f + 1)"

text \<open>The nearest multiple of the spacing that doubles have around \<open>x\<close>: 53 significant
  bits, and the spacing \<open>2 ^ - 1074\<close> of the subnormal doubles below \<open>2 ^ - 1022\<close>.\<close>

definition nearest :: "rat \<Rightarrow> rat" where
  "nearest x =
     (if x = 0 then 0
      else let q = pow2 (max (exponent \<bar>x\<bar>) (- 1022) - 52)
           in of_int (ties_even (x / q)) * q)"

text \<open>The double that an exact result is rounded to. It is also the number that a decimal
  literal of a JSON body denotes.\<close>

definition rnd :: "rat \<Rightarrow> number" where
  "rnd x =
     (let y = nearest x
      in if 2 ^ 1024 \<le> y then PosInfinity
         else if y \<le> - (2 ^ 1024) then NegInfinity
         else Finite y)"

fun js_minus :: "number \<Rightarrow> number \<Rightarrow> number" where
  "js_minus NaN y = NaN"
| "js_minus x NaN = NaN"
| "js_minus (Finite a) (Finite b) = rnd (a - b)"
| "js_minus (Finite a) PosInfinity = NegInfinity"
| "js_minus (Finite a) NegInfinity = PosInfinity"
| "js_minus PosInfinity PosInfinity = NaN"
| "js_minus PosInfinity y = PosInfinity"
| "js_minus NegInfinity NegInfinity = NaN"
| "js_minus NegInfinity y = NegInfinity"

text \<open>An infinity (the positive one when \<open>positive\<close>) times a finite number.\<close>

definition infinity_times :: "bool \<Rightarrow> rat \<Rightarrow> number" where
  "infinity_times positive a =
     (if a = 0 then NaN else if (0 < a) = positive then PosInfinity else NegInfinity)"

fun js_times :: "number \<Rightarrow> number \<Rightarrow> number" where
  "js_times NaN y = NaN"
| "js_times x NaN = NaN"
| "js_times (Finite a) (Finite b) = rnd (a * b)"
| "js_times (Finite a) PosInfinity = infinity_times True a"
| "js_times (Finite a) NegInfinity = infinity_times False a"
| "js_times PosInfinity (Finite b) = infinity_times True b"
| "js_times NegInfinity (Finite b) = infinity_times False b"
| "js_times PosInfinity PosInfinity = PosInfinity"
| "js_times NegInfinity NegInfinity = PosInfinity"
| "js_times PosInfinity NegInfinity = NegInfinity"
| "js_times NegInfinity PosInfinity = NegInfinity"

text \<open>\<^verbatim>\<open>x / 100\<close>, the one division of the controller.\<close>

fun divide_by_100 :: "number \<Rightarrow> number" where
  "divide_by_100 (Finite a) = rnd (a / 100)"
| "divide_by_100 x = x"

text \<open>\<^verbatim>\<open>Math.round\<close> gives the nearest integer, the larger one of two that are equally
  near; the result is exact.\<close>

fun Math_round :: "number \<Rightarrow> number" where
  "Math_round (Finite x) = Finite (of_int \<lfloor>x + 1 / 2\<rfloor>)"
| "Math_round x = x"

text \<open>\<^verbatim>\<open>parseFloat\<close> of a number prints the number and reads it back.\<close>

definition parseFloat :: "number \<Rightarrow> number" where
  "parseFloat x = x"

function digits :: "int \<Rightarrow> string" where
  "digits n = (if n < 10 then [''0123456789'' ! nat n]
               else digits (n div 10) @ [''0123456789'' ! nat (n mod 10)])"
  by pat_completeness auto
termination
  by (relation "measure nat") auto

declare digits.simps [simp del]

text \<open>\<^verbatim>\<open>toFixed(2)\<close>: the sign, then the integer nearest to a hundred times the size of
  the number (the larger of two), written with a point before its last two digits. For a
  number of size \<open>10 ^ 21\<close> or more it is \<^verbatim>\<open>String(x)\<close>, which is a parameter here.\<close>

fun toFixed2 :: "(rat \<Rightarrow> string) \<Rightarrow> number \<Rightarrow> string" where
  "toFixed2 toString (Finite x) =
     (if 10 ^ 21 \<le> \<bar>x\<bar> then toString x
      else let n = \<lfloor>\<bar>x\<bar> * 100 + 1 / 2\<rfloor>
           in (if x < 0 then ''-'' else '''') @ digits (n div 100) @ ''.'' @
              digits (n mod 100 div 10) @ digits (n mod 10))"
| "toFixed2 toString PosInfinity = ''Infinity''"
| "toFixed2 toString NegInfinity = ''-Infinity''"
| "toFixed2 toString NaN = ''NaN''"

section \<open>paymentProcess\<close>

definition orderData :: "user \<Rightarrow> 'a cart_item_scheme list \<Rightarrow> line list" where
  "orderData user cart =
     map (\<lambda>item. \<lparr>l_id = ci_id item, l_size = ci_size item, l_color = ci_color item,
                  l_quantity = ci_quantity item, l_userId = u_id user\<rparr>) cart"

text \<open>The first value of \<^verbatim>\<open>actualPrice\<close>: the rounded discounted price. The price and the
  discount of a cart element are the decimals written in the request; the handler
  computes with the doubles they denote.\<close>

definition actualPrice :: "'a cart_item_scheme \<Rightarrow> number" where
  "actualPrice item =
     (let percentage = divide_by_100 (rnd (ci_discount item))
      in Math_round (js_minus (rnd (ci_price item)) (js_times (rnd (ci_price item)) percentage)))"

definition unit_amount :: "env \<Rightarrow> 'a cart_item_scheme \<Rightarrow> string" where
  "unit_amount E item =
     (let actualPrice = actualPrice item;
          actualPrice = parseFloat actualPrice;
          actualPrice = js_times actualPrice (Finite 100)
      in toFixed2 (Number_toString E) actualPrice)"

definition line_items :: "env \<Rightarrow> 'a cart_item_scheme list \<Rightarrow> line_item list" where
  "line_items E cart =
     map (\<lambda>item. \<lparr>li_currency = ''usd'', li_name = ci_title item,
                  li_unit_amount_decimal = unit_amount E item,
                  li_quantity = ci_quantity item\<rparr>) cart"

definition customer_request :: "env \<Rightarrow> user \<Rightarrow> 'a cart_item_scheme list \<Rightarrow> customer_params" where
  "customer_request E user cart =
     \<lparr>cp_email = u_email user, cp_cart = JSON_stringify E (orderData user cart)\<rparr>"

definition session_request ::
  "env \<Rightarrow> 'a cart_item_scheme list \<Rightarrow> stripe_customer \<Rightarrow> session_params" where
  "session_request E cart customer =
     \<lparr>sp_allowed_countries = [''PK'', ''IN'', ''BD''],
      sp_shipping_amount = 0,
      sp_shipping_currency = ''usd'',
      sp_shipping_display_name = ''Free shipping'',
      sp_delivery_minimum = 5,
      sp_delivery_maximum = 7,
      sp_line_items = line_items E cart,
      sp_customer = c_id customer,
      sp_mode = ''payment'',
      sp_success_url = CLIENT E @ ''/user?session_id={CHECKOUT_SESSION_ID}'',
      sp_cancel_url = CLIENT E @ ''/cart''\<rparr>"

definition paymentProcess ::
  "env \<Rightarrow> 'a cart_item_scheme list \<Rightarrow> ref \<Rightarrow> state \<Rightarrow> js_error + state" where
  "paymentProcess E cart ident st =
     (case find (\<lambda>u. u_id u = ident) (users st) of
        None \<Rightarrow> Inr (send (Reply 404 (Json_error ''User not found'')) st)
      | Some user \<Rightarrow>
          (case customers_create E (customer_request E user cart) of
             Inl msg \<Rightarrow> Inl (ProviderError msg)
           | Inr customer \<Rightarrow>
               (case sessions_create E (session_request E cart customer) of
                  Inl msg \<Rightarrow> Inl (ProviderError msg)
                | Inr session \<Rightarrow> Inr (send (Reply 200 (Json_url (s_url session))) st))))"

section \<open>checkOutSession\<close>

subsection \<open>The callback of \<^verbatim>\<open>customer.forEach\<close>\<close>

text \<open>
  \<^verbatim>\<open>forEach\<close> does not wait for its \<^verbatim>\<open>async\<close> callback: every callback runs up to its
  first \<^verbatim>\<open>await\<close>, and the four awaited store operations of the different callbacks
  then take effect in whatever order the store answers. A callback is therefore a
  small program with a program counter; the value of a \<open>task\<close> is the operation the
  callback is waiting for, with the local variables it holds (\<^verbatim>\<open>ctr\<close>,
  \<^verbatim>\<open>reviewStatus\<close>, \<^verbatim>\<open>stock\<close>).
\<close>

datatype stage = AtFindOrder | AtCreate | AtFindProduct | AtUpdate

datatype task =
    FindOrder line
  | Create line bool
  | FindProduct line
  | Update line int
  | Finished
  | Failed stage

definition findOrder :: "line \<Rightarrow> state \<Rightarrow> order option" where
  "findOrder ctr st =
     find (\<lambda>ord. o_productId ord = l_id ctr \<and> o_userId ord = l_userId ctr \<and> o_review ord)
       (orders st)"

definition new_order :: "event \<Rightarrow> line \<Rightarrow> bool \<Rightarrow> order" where
  "new_order data ctr reviewStatus =
     \<lparr>o_productId = l_id ctr, o_userId = l_userId ctr, o_size = l_size ctr,
      o_color = l_color ctr, o_quantities = l_quantity ctr, o_address = e_address data,
      o_review = reviewStatus\<rparr>"

definition OrderModel_create :: "order \<Rightarrow> state \<Rightarrow> state" where
  "OrderModel_create ord st = st\<lparr>orders := orders st @ [ord]\<rparr>"

text \<open>\<^verbatim>\<open>findByIdAndUpdate(id, { stock })\<close> sets the one field of the one document, and
  does nothing when no document has the id.\<close>

definition findByIdAndUpdate :: "ref \<Rightarrow> int \<Rightarrow> state \<Rightarrow> state" where
  "findByIdAndUpdate ident stock st =
     (case products st ident of
        None \<Rightarrow> st
      | Some product \<Rightarrow> st\<lparr>products := (products st)(ident \<mapsto> product\<lparr>p_stock := stock\<rparr>)\<rparr>)"

text \<open>The \<^verbatim>\<open>catch\<close> block of the callback.\<close>

definition caught :: "stage \<Rightarrow> state \<Rightarrow> task \<times> state" where
  "caught s st = (Failed s, send (Reply 500 (Json_string ''Server internal error'')) st)"

text \<open>One awaited operation of a callback takes effect; \<open>throws\<close> says that the store
  rejects it (or that building its argument throws), which the \<^verbatim>\<open>try\<close> around the whole
  body catches. A rejected operation leaves the store as it was.\<close>

fun resume :: "event \<Rightarrow> bool \<Rightarrow> task \<Rightarrow> state \<Rightarrow> task \<times> state" where
  "resume data throws (FindOrder ctr) st =
     (if throws then caught AtFindOrder st
      else (Create ctr (findOrder ctr st \<noteq> None), st))"
| "resume data throws (Create ctr reviewStatus) st =
     (if throws then caught AtCreate st
      else (FindProduct ctr, OrderModel_create (new_order data ctr reviewStatus) st))"
| "resume data throws (FindProduct ctr) st =
     (if throws then caught AtFindProduct st
      else (case products st (l_id ctr) of
              None \<Rightarrow> (Finished, st)
            | Some product \<Rightarrow> (Update ctr (max (p_stock product - l_quantity ctr) 0), st)))"
| "resume data throws (Update ctr stock) st =
     (if throws then caught AtUpdate st
      else (Finished, findByIdAndUpdate (l_id ctr) stock st))"
| "resume data throws Finished st = (Finished, st)"
| "resume data throws (Failed s) st = (Failed s, st)"

text \<open>A schedule lists which callback's pending operation takes effect next, and whether
  it is rejected.\<close>

type_synonym schedule = "(nat \<times> bool) list"

fun run :: "event \<Rightarrow> schedule \<Rightarrow> task list \<Rightarrow> state \<Rightarrow> task list \<times> state" where
  "run data [] ts st = (ts, st)"
| "run data ((i, throws) # sched) ts st =
     (if i < length ts
      then (case resume data throws (ts ! i) st of
              (t, st') \<Rightarrow> run data sched (ts[i := t]) st')
      else run data sched ts st)"

definition forEach :: "event \<Rightarrow> schedule \<Rightarrow> line list \<Rightarrow> state \<Rightarrow> task list \<times> state" where
  "forEach data sched customer st = run data sched (map FindOrder customer) st"

text \<open>Each callback to completion before the next one starts.\<close>

definition sequential :: "nat \<Rightarrow> schedule" where
  "sequential n = concat (map (\<lambda>i. replicate 4 (i, False)) [0..<n])"

text \<open>The store answers in the order it was asked: all lookups, then all creations, then
  all product reads, then all stock updates.\<close>

definition lockstep :: "nat \<Rightarrow> schedule" where
  "lockstep n = concat (replicate 4 (map (\<lambda>i. (i, False)) [0..<n]))"

subsection \<open>The handler\<close>

record request =
  rawBody :: string
  stripe_signature :: "string option"

text \<open>\<^verbatim>\<open>response.send()\<close> after the \<^verbatim>\<open>switch\<close> runs in the same turn as \<^verbatim>\<open>forEach\<close>,
  before any awaited store operation has answered; the result holds the callbacks and
  the store once the schedule has been played. \<^verbatim>\<open>JSON.parse\<close> of a missing entry
  (\<^verbatim>\<open>undefined\<close>) throws as it does on text that is not JSON; nothing catches it, nor
  a rejected \<^verbatim>\<open>customers.retrieve\<close>.\<close>

definition checkOutSession ::
  "env \<Rightarrow> schedule \<Rightarrow> request \<Rightarrow> state \<Rightarrow> js_error + task list \<times> state" where
  "checkOutSession E sched request st =
     (case constructEvent E (rawBody request) (stripe_signature request) (ENDPOINTSECRET E) of
        Inl msg \<Rightarrow> Inr ([], send (Reply 400 (Text (''Webhook Error: '' @ msg))) st)
      | Inr event \<Rightarrow>
          if e_type event = ''payment_intent.succeeded''
          then Inr ([], send (Reply 200 NoBody) st)
          else if e_type event = ''checkout.session.completed''
          then (case customers_retrieve E (e_customer event) of
                  Inl msg \<Rightarrow> Inl (ProviderError msg)
                | Inr customer \<Rightarrow>
                    (case c_cart customer of
                       None \<Rightarrow> Inl SyntaxError
                     | Some blob \<Rightarrow>
                         (case JSON_parse E blob of
                            None \<Rightarrow> Inl SyntaxError
                          | Some customer \<Rightarrow>
                              Inr (forEach event sched customer (send (Reply 200 NoBody) st)))))
          else Inr ([], send (Reply 200 NoBody) st))"

section \<open>paymentVerify\<close>

definition paymentVerify :: "env \<Rightarrow> ref \<Rightarrow> state \<Rightarrow> state" where
  "paymentVerify E ident st =
     (case sessions_retrieve E ident of
        Inr session \<Rightarrow>
          send (Reply 200 (Json_status ''Your payment has verfied successfully''
                             (s_payment_status session))) st
      | Inl msg \<Rightarrow> send (Reply 500 (Json_string msg)) st)"

section \<open>Notions used to state the properties\<close>


text \<open>Whether the callback has already created its order, and the line it still holds.\<close>

fun made :: "task \<Rightarrow> nat" where
  "made (FindOrder ctr) = 0"
| "made (Create ctr reviewStatus) = 0"
| "made (FindProduct ctr) = 1"
| "made (Update ctr stock) = 1"
| "made Finished = 1"
| "made (Failed s) = (if s = AtFindProduct \<or> s = AtUpdate then 1 else 0)"

fun held :: "task \<Rightarrow> line option" where
  "held (FindOrder ctr) = Some ctr"
| "held (Create ctr reviewStatus) = Some ctr"
| "held (FindProduct ctr) = Some ctr"
| "held (Update ctr stock) = Some ctr"
| "held Finished = None"
| "held (Failed s) = None"

text \<open>The lines whose callback has created its order; callbacks and lines are matched by
  position.\<close>

fun done_lines :: "task list \<Rightarrow> line list \<Rightarrow> line multiset" where
  "done_lines (t # ts) (ctr # customer) =
     (if made t = 1 then {#ctr#} else {#}) + done_lines ts customer"
| "done_lines ts customer = {#}"

text \<open>A prior order of the same product and buyer with \<^verbatim>\<open>review: true\<close> exists.\<close>

definition eligible :: "ref \<Rightarrow> ref \<Rightarrow> order list \<Rightarrow> bool" where
  "eligible productId userId ords =
     list_ex (\<lambda>ord. o_productId ord = productId \<and> o_userId ord = userId \<and> o_review ord) ords"

text \<open>Every order that the callbacks add is built from a line of the event, with the
  review flag that the pair of product and buyer had before the event.\<close>

definition fresh_orders :: "event \<Rightarrow> line list \<Rightarrow> order list \<Rightarrow> order list \<Rightarrow> bool" where
  "fresh_orders data ls ords0 ords \<longleftrightarrow>
     (\<exists>new. ords = ords0 @ new \<and>
        (\<forall>ord\<in>set new. \<exists>ctr\<in>set ls.
            ord = new_order data ctr (eligible (l_id ctr) (l_userId ctr) ords0)))"

text \<open>A collection of products differs from an earlier one in stock values only.\<close>

definition stock_only :: "(ref \<rightharpoonup> product) \<Rightarrow> (ref \<rightharpoonup> product) \<Rightarrow> bool" where
  "stock_only P0 P \<longleftrightarrow>
     (\<forall>ident. case P0 ident of
                 None \<Rightarrow> P ident = None
               | Some product \<Rightarrow> (\<exists>stock. P ident = Some (product\<lparr>p_stock := stock\<rparr>)))"

text \<open>How the stock of a product follows the one callback whose line names it: \<open>p\<close> is
  the product before the event, \<open>q\<close> the quantity of the line, \<open>cur\<close> what the store
  holds for the product now.\<close>

fun tracks :: "product \<Rightarrow> int \<Rightarrow> task \<Rightarrow> product option \<Rightarrow> bool" where
  "tracks p q (FindOrder ctr) cur = (cur = Some p)"
| "tracks p q (Create ctr reviewStatus) cur = (cur = Some p)"
| "tracks p q (FindProduct ctr) cur = (cur = Some p)"
| "tracks p q (Update ctr stock) cur = (cur = Some p \<and> stock = max (p_stock p - q) 0)"
| "tracks p q Finished cur = (cur = Some (p\<lparr>p_stock := max (p_stock p - q) 0\<rparr>))"
| "tracks p q (Failed s) cur = True"

text \<open>The four operations of one callback with nothing in between and nothing rejected.\<close>

definition callback :: "event \<Rightarrow> line \<Rightarrow> state \<Rightarrow> state" where
  "callback data ctr st =
     (let st1 = OrderModel_create (new_order data ctr (findOrder ctr st \<noteq> None)) st
      in case products st1 (l_id ctr) of
           None \<Rightarrow> st1
         | Some product \<Rightarrow>
             findByIdAndUpdate (l_id ctr) (max (p_stock product - l_quantity ctr) 0) st1)"

text \<open>The total quantity that the line items request of one product.\<close>

definition requested :: "ref \<Rightarrow> line list \<Rightarrow> int" where
  "requested ident customer = sum_list (map l_quantity (filter (\<lambda>ctr. l_id ctr = ident) customer))"

text \<open>The verified completed-checkout event of a request and the line items its customer
  metadata parses to, when the request carries one.\<close>

definition intent :: "env \<Rightarrow> request \<Rightarrow> (event \<times> line list) option" where
  "intent E request =
     (case constructEvent E (rawBody request) (stripe_signature request) (ENDPOINTSECRET E) of
        Inl msg \<Rightarrow> None
      | Inr event \<Rightarrow>
          if e_type event = ''checkout.session.completed''
          then (case customers_retrieve E (e_customer event) of
                  Inl msg \<Rightarrow> None
                | Inr customer \<Rightarrow>
                    (case c_cart customer of
                       None \<Rightarrow> None
                     | Some blob \<Rightarrow> map_option (Pair event) (JSON_parse E blob)))
          else None)"

text \<open>The provider delivers one request a second time; each delivery is a request of its
  own, with a fresh response object.\<close>

definition redeliver ::
  "env \<Rightarrow> schedule \<Rightarrow> schedule \<Rightarrow> request \<Rightarrow> state \<Rightarrow> js_error + task list \<times> state" where
  "redeliver E s1 s2 request st =
     (let st1 = (case checkOutSession E s1 request st of Inl e \<Rightarrow> st | Inr (ts, st1) \<Rightarrow> st1)
      in checkOutSession E s2 request (st1\<lparr>response := None\<rparr>))"

subsection \<open>Sample data\<close>

definition sample_lines :: "line list" where
  "sample_lines =
     [\<lparr>l_id = ''P1'', l_size = ''M'', l_color = ''red'', l_quantity = 3, l_userId = ''B1''\<rparr>]"

definition sample_cart :: "cart_item list" where
  "sample_cart =
     [\<lparr>ci_id = ''P1'', ci_title = ''Shirt'', ci_size = ''M'', ci_color = ''red'',
       ci_quantity = 3, ci_price = 1000, ci_discount = 10\<rparr>]"

definition sample_session :: checkout_session where
  "sample_session =
     \<lparr>s_id = ''cs_1'', s_url = ''https://checkout.example/cs_1'', s_payment_status = ''paid''\<rparr>"

text \<open>The same product in two sizes.\<close>

definition two_sizes :: "line list" where
  "two_sizes =
     [\<lparr>l_id = ''P1'', l_size = ''M'', l_color = ''red'', l_quantity = 3, l_userId = ''B1''\<rparr>,
      \<lparr>l_id = ''P1'', l_size = ''L'', l_color = ''red'', l_quantity = 4, l_userId = ''B1''\<rparr>]"

text \<open>A provider with four customers (two whose metadata parses, one without a
  \<^verbatim>\<open>cart\<close> entry, one whose entry does not parse) and one session; a request is
  verified when its signature header is \<^verbatim>\<open>good\<close>, and then its body names the event type
  and the customer.\<close>

definition sample_env :: env where
  "sample_env =
     \<lparr>CLIENT = ''https://shop.example'',
      ENDPOINTSECRET = ''whsec'',
      constructEvent = (\<lambda>body sig secret.
         if sig = Some ''good'' \<and> secret = ''whsec''
         then Inr \<lparr>e_type = takeWhile (\<lambda>c. c \<noteq> CHR '' '') body,
                   e_customer = drop 1 (dropWhile (\<lambda>c. c \<noteq> CHR '' '') body),
                   e_address = ''1 Main Street''\<rparr>
         else Inl ''No signatures found matching the expected signature for payload''),
      customers_create = (\<lambda>params.
         Inr \<lparr>c_id = ''cus_1'', c_email = cp_email params, c_cart = Some (cp_cart params)\<rparr>),
      customers_retrieve = (\<lambda>ident.
         if ident = ''cus_1''
         then Inr \<lparr>c_id = ''cus_1'', c_email = ''b1@shop.example'', c_cart = Some ''cart''\<rparr>
         else if ident = ''cus_2''
         then Inr \<lparr>c_id = ''cus_2'', c_email = ''b2@shop.example'', c_cart = None\<rparr>
         else if ident = ''cus_3''
         then Inr \<lparr>c_id = ''cus_3'', c_email = ''b3@shop.example'', c_cart = Some ''{''\<rparr>
         else if ident = ''cus_4''
         then Inr \<lparr>c_id = ''cus_4'', c_email = ''b1@shop.example'', c_cart = Some ''sizes''\<rparr>
         else Inl ''No such customer''),
      sessions_create = (\<lambda>params. Inr sample_session),
      sessions_retrieve = (\<lambda>ident.
         if ident = ''cs_1'' then Inr sample_session else Inl ''No such checkout.session''),
      JSON_stringify = (\<lambda>customer. if customer = [] then ''[]'' else ''cart''),
      JSON_parse = (\<lambda>blob.
         if blob = ''[]'' then Some []
         else if blob = ''cart'' then Some sample_lines
         else if blob = ''sizes'' then Some two_sizes
         else None),
      Number_toString = (\<lambda>x. ''1e+21'')\<rparr>"

definition sample_product :: product where
  "sample_product =
     \<lparr>p_title = ''Shirt'', p_price = 1000, p_discount = 10, p_stock = 10,
      p_images = [''shirt.png''], p_sizes = [''M'', ''L''], p_colors = [''red''],
      p_category = ''clothes'', p_description = ''A shirt''\<rparr>"

definition sample_state :: state where
  "sample_state =
     \<lparr>orders = [],
      products = [''P1'' \<mapsto> sample_product,
                  ''P2'' \<mapsto> sample_product\<lparr>p_title := ''Hat'', p_stock := 2\<rparr>],
      users = [\<lparr>u_id = ''B1'', u_email = ''b1@shop.example''\<rparr>],
      response = None\<rparr>"

definition sample_request :: request where
  "sample_request =
     \<lparr>rawBody = ''checkout.session.completed cus_1'', stripe_signature = Some ''good''\<rparr>"

text \<open>The buyer has bought the product before and may review it.\<close>

definition returning_state :: state where
  "returning_state =
     sample_state\<lparr>orders :=
       [\<lparr>o_productId = ''P1'', o_userId = ''B1'', o_size = ''L'', o_color = ''blue'',
         o_quantities = 1, o_address = ''1 Main Street'', o_review = True\<rparr>]\<rparr>"

text \<open>Verified completed-checkout events for the customer without a \<^verbatim>\<open>cart\<close> entry and
  for the customer whose entry does not parse.\<close>

definition no_cart_request :: request where
  "no_cart_request =
     \<lparr>rawBody = ''checkout.session.completed cus_2'', stripe_signature = Some ''good''\<rparr>"

definition bad_cart_request :: request where
  "bad_cart_request =
     \<lparr>rawBody = ''checkout.session.completed cus_3'', stripe_signature = Some ''good''\<rparr>"

text \<open>A verified completed-checkout event for the customer whose metadata holds the two
  sizes.\<close>

definition two_sizes_request :: request where
  "two_sizes_request =
     \<lparr>rawBody = ''checkout.session.completed cus_4'', stripe_signature = Some ''good''\<rparr>"

definition two_sizes_event :: event where
  "two_sizes_event =
     \<lparr>e_type = ''checkout.session.completed'', e_customer = ''cus_4'',
      e_address = ''1 Main Street''\<rparr>"

definition sample_event :: event where
  "sample_event =
     \<lparr>e_type = ''checkout.session.completed'', e_customer = ''cus_1'',
      e_address = ''1 Main Street''\<rparr>"

text \<open>What is looked at after a delivery: the callbacks, the orders, the stock of one
  product and the response.\<close>

definition observe ::
  "ref \<Rightarrow> js_error + task list \<times> state
     \<Rightarrow> js_error + task list \<times> order list \<times> int option \<times> reply option" where
  "observe ident result =
     map_sum id (\<lambda>(ts, st). (ts, orders st, map_option p_stock (products st ident), response st))
       result"

section \<open>Properties of paymentVerify\<close>

text \<open>Claim C7 fails where it says that a session the provider does not have is answered
  with 404: the \<^verbatim>\<open>catch\<close> block of \<^verbatim>\<open>paymentVerify\<close> answers 500 with the provider's
  message. Here the provider knows no session \<^verbatim>\<open>cs_404\<close>.\<close>

theorem paymentVerify_missing_session_counterexample:
  "sessions_retrieve sample_env ''cs_404'' = Inl ''No such checkout.session'' \<and>
   response (paymentVerify sample_env ''cs_404'' sample_state)
     = Some (Reply 500 (Json_string ''No such checkout.session''))"
  by (simp add: paymentVerify_def sample_env_def sample_state_def send_def)

text \<open>Claim C7, amended: when the provider has the session, the query answers 200 with the
  session's payment status verbatim; when the retrieval throws, it answers 500 with the
  error's message. In both cases nothing but the response changes: orders, products and
  users stay as they were.\<close>

theorem paymentVerify_status_or_500:
  assumes "response st = None"
  shows "(sessions_retrieve E ident = Inr session \<longrightarrow>
            paymentVerify E ident st =
              st\<lparr>response := Some (Reply 200 (Json_status ''Your payment has verfied successfully''
                                                (s_payment_status session)))\<rparr>) \<and>
         (sessions_retrieve E ident = Inl msg \<longrightarrow>
            paymentVerify E ident st = st\<lparr>response := Some (Reply 500 (Json_string msg))\<rparr>)"
  using assms by (simp add: paymentVerify_def send_def)

theorem paymentVerify_status_or_500_witness:
  "response sample_state = None \<and>
   sessions_retrieve sample_env ''cs_1'' = Inr sample_session \<and>
   paymentVerify sample_env ''cs_1'' sample_state =
     sample_state\<lparr>response := Some (Reply 200 (Json_status ''Your payment has verfied successfully'' ''paid''))\<rparr> \<and>
   sessions_retrieve sample_env ''cs_404'' = Inl ''No such checkout.session'' \<and>
   paymentVerify sample_env ''cs_404'' sample_state =
     sample_state\<lparr>response := Some (Reply 500 (Json_string ''No such checkout.session''))\<rparr>"
proof -
  have fresh: "response sample_state = None"
    by (simp add: sample_state_def)
  have found: "sessions_retrieve sample_env ''cs_1'' = Inr sample_session"
    by (simp add: sample_env_def)
  have missing: "sessions_retrieve sample_env ''cs_404'' = Inl ''No such checkout.session''"
    by (simp add: sample_env_def)
  have paid: "s_payment_status sample_session = ''paid''"
    by (simp add: sample_session_def)
  have ok: "paymentVerify sample_env ''cs_1'' sample_state =
      sample_state\<lparr>response := Some (Reply 200 (Json_status ''Your payment has verfied successfully'' ''paid''))\<rparr>"
    using paymentVerify_status_or_500 [OF fresh, of sample_env "''cs_1''" sample_session "[]"] found paid
    by simp
  have ko: "paymentVerify sample_env ''cs_404'' sample_state =
      sample_state\<lparr>response := Some (Reply 500 (Json_string ''No such checkout.session''))\<rparr>"
    using paymentVerify_status_or_500 [OF fresh, of sample_env "''cs_404''" sample_session
        "''No such checkout.session''"] missing
    by simp
  show ?thesis
    by (intro conjI fresh found ok missing ko)
qed

section \<open>Properties of the numbers\<close>

lemma bits_pos: "0 < n \<Longrightarrow> 0 < bits n"
  by (subst bits.simps) simp

lemma bits_le: "n < 2 ^ j \<Longrightarrow> bits n \<le> j"
proof (induction j arbitrary: n)
  case 0
  then show ?case by (subst bits.simps) simp
next
  case (Suc j)
  show ?case
  proof (cases "n \<le> 0")
    case True
    then show ?thesis by (subst bits.simps) simp
  next
    case False
    from Suc.prems have "n div 2 < 2 ^ j" by simp
    from Suc.IH[OF this] False show ?thesis by (subst bits.simps) simp
  qed
qed

lemma bits_bounds: "0 < n \<Longrightarrow> 2 ^ (bits n - 1) \<le> n \<and> n < 2 ^ bits n"
proof (induction n rule: bits.induct)
  case (1 n)
  show ?case
  proof (cases "n = 1")
    case True
    then show ?thesis by (simp add: bits.simps)
  next
    case False
    with 1 have h: "0 < n div 2" by simp
    with 1 have IH: "2 ^ (bits (n div 2) - 1) \<le> n div 2 \<and> n div 2 < 2 ^ bits (n div 2)" by simp
    have b: "bits n = Suc (bits (n div 2))" using 1(2) by (subst bits.simps) simp
    from bits_pos[OF h] obtain k where k: "bits (n div 2) = Suc k" by (cases "bits (n div 2)") auto
    from IH k have "2 ^ k \<le> n div 2" "n div 2 < 2 * 2 ^ k" by simp_all
    then have "2 * 2 ^ k \<le> n" "n < 2 * (2 * 2 ^ k)" by linarith+
    with b k show ?thesis by simp
  qed
qed

lemma pow2_add1: "pow2 (e + 1) = 2 * pow2 e"
proof (cases "0 \<le> e")
  case True
  then show ?thesis by (simp add: pow2_def nat_add_distrib)
next
  case False
  show ?thesis
  proof (cases "e = - 1")
    case True
    then show ?thesis by (simp add: pow2_def)
  next
    case neg: False
    from False obtain m where m: "nat (- e) = Suc m" by (cases "nat (- e)") auto
    then have "nat (- (e + 1)) = m" by linarith
    with False neg m show ?thesis by (simp add: pow2_def)
  qed
qed

lemma pow2_of_nat: "pow2 (int b) = 2 ^ b"
  by (simp add: pow2_def)

lemma pow2_neg: "pow2 (- int b) = 1 / 2 ^ b"
  by (cases "b = 0") (simp_all add: pow2_def)

lemma pow2_pos: "0 < pow2 e"
  by (simp add: pow2_def)

text \<open>\<open>exponent\<close> is the binary exponent.\<close>

lemma exponent_bounds:
  assumes "0 < x"
  shows "pow2 (exponent x) \<le> x \<and> x < pow2 (exponent x + 1)"
proof (cases "1 \<le> x")
  case True
  let ?n = "\<lfloor>x\<rfloor>"
  from True have n: "0 < ?n" by simp
  from bits_bounds[OF n] have lo: "2 ^ (bits ?n - 1) \<le> ?n" and hi: "?n < 2 ^ bits ?n" by simp_all
  from bits_pos[OF n] obtain k where k: "bits ?n = Suc k" by (cases "bits ?n") auto
  have e: "exponent x = int k" using True k by (simp add: exponent_def)
  from lo k have "(of_int (2 ^ k) :: rat) \<le> of_int ?n" by (simp only: of_int_le_iff) simp
  also have "\<dots> \<le> x" by simp
  finally have a: "(2::rat) ^ k \<le> x" by simp
  from hi k have "?n + 1 \<le> 2 ^ Suc k" by simp
  then have "(of_int (?n + 1) :: rat) \<le> of_int (2 ^ Suc k)" by (simp only: of_int_le_iff)
  moreover have "x < of_int (?n + 1)" by linarith
  ultimately have b: "x < 2 ^ Suc k" by simp
  from a b e show ?thesis by (simp add: pow2_add1 pow2_of_nat)
next
  case False
  let ?y = "1 / x" and ?n = "\<lfloor>1 / x\<rfloor>"
  from False assms have y: "1 < ?y" by simp
  then have n: "0 < ?n" by simp
  from bits_bounds[OF n] have hi: "?n < 2 ^ bits ?n" by simp
  let ?b = "bits ?n"
  from hi have "?n + 1 \<le> 2 ^ ?b" by simp
  then have "(of_int (?n + 1) :: rat) \<le> of_int (2 ^ ?b)" by (simp only: of_int_le_iff)
  moreover have "?y < of_int (?n + 1)" by linarith
  ultimately have "?y < 2 ^ ?b" by simp
  with assms have lo: "1 / 2 ^ ?b < x"
    by (simp add: field_simps)
  show ?thesis
  proof (cases "pow2 (- int ?b + 1) \<le> x")
    case c: True
    have "exponent x = - int ?b + 1" using False c by (simp add: exponent_def Let_def)
    moreover have "x < pow2 (- int ?b + 1 + 1)"
    proof -
      from bits_bounds[OF n] have "2 ^ (?b - 1) \<le> ?n" by simp
      then have "(of_int (2 ^ (?b - 1)) :: rat) \<le> of_int ?n" by (simp only: of_int_le_iff)
      also have "\<dots> \<le> ?y" by simp
      finally have "(2::rat) ^ (?b - 1) \<le> 1 / x" by simp
      with assms have "x \<le> 1 / 2 ^ (?b - 1)" by (simp add: field_simps)
      moreover from bits_pos[OF n] obtain k where k: "?b = Suc k" by (cases ?b) auto
      ultimately have "x \<le> 2 * (1 / 2 ^ ?b)" by simp
      also have "\<dots> < 2 * (2 * (1 / 2 ^ ?b))"
        using divide_strict_right_mono[of 2 4 "(2::rat) ^ ?b"] by simp
      finally have "x < 2 * (2 * pow2 (- int ?b))" by (simp only: pow2_neg)
      then show ?thesis by (simp only: pow2_add1)
    qed
    ultimately show ?thesis using c by simp
  next
    case c: False
    have "exponent x = - int ?b" using False c by (simp add: exponent_def Let_def)
    with c lo show ?thesis by (simp add: pow2_neg not_le)
  qed
qed

lemma ties_even_of_int: "ties_even (of_int z) = z"
  by (simp add: ties_even_def)

lemma ties_even_close: "\<bar>of_int (ties_even m) - m\<bar> \<le> 1 / 2"
proof -
  have a: "of_int \<lfloor>m\<rfloor> \<le> m" and b: "m < of_int \<lfloor>m\<rfloor> + 1" by linarith+
  show ?thesis
    unfolding ties_even_def Let_def using a b
    by (simp only: split: if_splits) (auto simp: abs_if; linarith)
qed

text \<open>\<open>nearest\<close> moves a number by at most half the spacing.\<close>

lemma nearest_close:
  "\<bar>nearest x - x\<bar> \<le> pow2 (max (exponent \<bar>x\<bar>) (- 1022) - 52) / 2"
proof (cases "x = 0")
  case True
  then show ?thesis using pow2_pos[of "max (exponent \<bar>x\<bar>) (- 1022) - 52"] by (simp add: nearest_def)
next
  case False
  let ?q = "pow2 (max (exponent \<bar>x\<bar>) (- 1022) - 52)"
  have q: "0 < ?q" by (rule pow2_pos)
  have "nearest x - x = (of_int (ties_even (x / ?q)) - x / ?q) * ?q"
    using False q by (simp add: nearest_def Let_def field_simps)
  then have "\<bar>nearest x - x\<bar> = \<bar>of_int (ties_even (x / ?q)) - x / ?q\<bar> * ?q"
    using q by (simp add: abs_mult)
  also have "\<dots> \<le> 1 / 2 * ?q"
    using ties_even_close[of "x / ?q"] q by (intro mult_right_mono) simp_all
  finally show ?thesis by simp
qed

text \<open>Integers below \<open>2 ^ 53\<close> are doubles.\<close>

lemma nearest_of_int:
  assumes "0 \<le> k" "k < 2 ^ 53"
  shows "nearest (of_int k) = of_int k"
proof (cases "k = 0")
  case True
  then show ?thesis by (simp add: nearest_def)
next
  case False
  with assms have pos: "0 < k" by simp
  then have one: "(1::rat) \<le> of_int k" by simp
  let ?b = "bits k"
  from bits_le[OF assms(2)] have le: "?b \<le> 53" .
  from bits_pos[OF pos] have ge: "0 < ?b" .
  have e: "exponent \<bar>of_int k\<bar> = int ?b - 1"
    using pos one by (simp add: exponent_def)
  define j where "j = 53 - ?b"
  have q: "pow2 (max (int ?b - 1) (- 1022) - 52) = 1 / 2 ^ j"
  proof (cases "?b = 53")
    case True
    then show ?thesis by (simp add: pow2_def j_def)
  next
    case False
    with le ge have "int ?b - 1 - 52 < 0" "nat (- (int ?b - 1 - 52)) = j"
      by (simp_all add: j_def)
    with ge show ?thesis by (simp add: pow2_def max_def)
  qed
  have "of_int k / (1 / 2 ^ j) = (of_int (k * 2 ^ j) :: rat)" by simp
  then have "ties_even (of_int k / (1 / 2 ^ j)) = k * 2 ^ j"
    by (simp only: ties_even_of_int)
  with pos e q show ?thesis
    by (simp add: nearest_def Let_def)
qed

lemma rnd_of_int:
  assumes "0 \<le> k" "k < 2 ^ 53"
  shows "rnd (of_int k) = Finite (of_int k)"
proof -
  have "(2::int) ^ 53 \<le> 2 ^ 1024" by (rule power_increasing) simp_all
  with assms(2) have "k < 2 ^ 1024" by linarith
  then have "(of_int k :: rat) < of_int (2 ^ 1024)" by (simp only: of_int_less_iff)
  then have up: "\<not> (2::rat) ^ 1024 \<le> of_int k" by (simp add: not_le)
  have "(0::rat) \<le> of_int k" using assms(1) by simp
  moreover have "- ((2::rat) ^ 1024) < 0" by simp
  ultimately have lo: "\<not> (of_int k :: rat) \<le> - (2 ^ 1024)" by linarith
  show ?thesis
    unfolding rnd_def Let_def nearest_of_int[OF assms] using up lo by (simp only: if_False)
qed

lemma rnd_numeral:
  "numeral k < (2::int) ^ 53 \<Longrightarrow> rnd (numeral k) = Finite (numeral k)"
  using rnd_of_int[of "numeral k"] by simp



lemma toFixed2_of_int:
  assumes "0 \<le> k" "k < 10 ^ 21"
  shows "toFixed2 N (Finite (of_int k)) = digits k @ ''.00''"
proof -
  have "(of_int k :: rat) < of_int (10 ^ 21)" using assms(2) by (simp only: of_int_less_iff)
  then have small: "\<not> (10::rat) ^ 21 \<le> \<bar>of_int k\<bar>" using assms(1) by simp
  have "\<lfloor>(of_int (k * 100) :: rat) + 1 / 2\<rfloor> = k * 100"
    by (rule floor_unique) simp_all
  then have n: "\<lfloor>\<bar>of_int k :: rat\<bar> * 100 + 1 / 2\<rfloor> = k * 100" using assms(1) by simp
  have z: "digits 0 = ''0''" by (simp add: digits.simps)
  from assms(1) have nn: "\<not> (of_int k :: rat) < 0" by simp
  show ?thesis
    unfolding toFixed2.simps Let_def n using small nn by (simp add: z)
qed

section \<open>Properties of paymentProcess\<close>

text \<open>When the rounded price is a whole number \<open>n\<close> with \<open>100 * n\<close> below \<open>2 ^ 53\<close>, the
  amount sent is \<open>100 * n\<close> written in decimal, followed by two zero decimals.\<close>

lemma unit_amount_cents:
  assumes "actualPrice item = Finite (of_int n)" "0 \<le> n" "100 * n < 2 ^ 53"
  shows "unit_amount E item = digits (100 * n) @ ''.00''"
proof -
  have k: "0 \<le> 100 * n" using assms(2) by simp
  have "js_times (Finite (of_int n)) (Finite 100) = rnd (of_int (100 * n))"
    by (simp add: mult.commute)
  also have "\<dots> = Finite (of_int (100 * n))" by (rule rnd_of_int[OF k assms(3)])
  finally have t: "js_times (Finite (of_int n)) (Finite 100) = Finite (of_int (100 * n))" .
  have "(2::int) ^ 53 < 10 ^ 21" by simp
  with assms(3) have "100 * n < 10 ^ 21" by linarith
  from toFixed2_of_int[OF k this] t assms(1) show ?thesis
    by (simp add: unit_amount_def parseFloat_def Let_def)
qed

text \<open>The rounded price is a whole number, an infinity or \<^verbatim>\<open>NaN\<close>.\<close>

lemma actualPrice_whole:
  "actualPrice item = Finite y \<Longrightarrow> \<exists>n. y = of_int n"
  by (cases "js_minus (rnd (ci_price item))
        (js_times (rnd (ci_price item)) (divide_by_100 (rnd (ci_discount item))))")
     (auto simp: actualPrice_def Let_def)

text \<open>Without a discount a whole price below \<open>2 ^ 53\<close> is its own rounded price.\<close>

lemma rnd_0: "rnd 0 = Finite 0"
  by (simp add: rnd_def nearest_def)

lemma actualPrice_no_discount:
  assumes "ci_price item = of_int n" "ci_discount item = 0" "0 \<le> n" "n < 2 ^ 53"
  shows "actualPrice item = Finite (of_int n)"
proof -
  have p: "rnd (of_int n) = Finite (of_int n)" by (rule rnd_of_int[OF assms(3,4)])
  have "\<lfloor>(of_int n :: rat) + 1 / 2\<rfloor> = n" by (rule floor_unique) simp_all
  then show ?thesis
    using assms(1,2) p by (simp add: actualPrice_def Let_def rnd_0)
qed

lemma floor_numeral_div: "\<lfloor>numeral a / numeral b :: rat\<rfloor> = numeral a div numeral b"
  using floor_divide_of_int_eq[of "numeral a" "numeral b", where ?'a = rat] by simp




text \<open>Price 50 with discount 55: the doubles give 22.499999999999996 for the discounted
  price, which rounds to 22, where the exact value 22.5 rounds to 23.\<close>

lemma rnd_55_percent: "rnd (11 / 20) = Finite (2476979795053773 / 4503599627370496)"
  by (simp add: rnd_def nearest_def exponent_def pow2_def ties_even_def bits.simps Let_def
      floor_numeral_div)

lemma rnd_55_percent_of_50:
  "rnd (61924494876344325 / 2251799813685248) = Finite (7740561859543041 / 281474976710656)"
  by (simp add: rnd_def nearest_def exponent_def pow2_def ties_even_def bits.simps Let_def
      floor_numeral_div)

lemma rnd_discounted_50:
  "rnd (6333186975989759 / 281474976710656) = Finite (6333186975989759 / 281474976710656)"
  by (simp add: rnd_def nearest_def exponent_def pow2_def ties_even_def bits.simps Let_def
      floor_numeral_div)

lemma actualPrice_50_55:
  "ci_price item = 50 \<Longrightarrow> ci_discount item = 55 \<Longrightarrow> actualPrice item = Finite 22"
  by (simp add: actualPrice_def rnd_numeral rnd_55_percent rnd_55_percent_of_50
      rnd_discounted_50 floor_numeral_div)

lemma unit_amount_50_55:
  assumes "ci_price item = 50" "ci_discount item = 55"
  shows "unit_amount E item = ''2200.00'' \<and> round (50 - 50 * 55 / 100 :: rat) = 23"
proof -
  have d: "digits 2200 = ''2200''" by (simp add: digits.simps)
  from unit_amount_cents[of item 22 E] actualPrice_50_55[OF assms] d
  show ?thesis by (simp add: round_def floor_numeral_div)
qed






text \<open>Claim C10: the cart is not validated. With an empty cart and a buyer identifier that
  resolves to a user, the handler asks the provider for a customer whose metadata is the
  serialisation of the empty list and for a session with no line items; when the provider
  grants both, the handler answers 200 with the session's URL and changes nothing else.\<close>

theorem paymentProcess_empty_cart:
  assumes "find (\<lambda>u. u_id u = ident) (users st) = Some user"
    and "response st = None"
    and "customers_create E \<lparr>cp_email = u_email user, cp_cart = JSON_stringify E []\<rparr> = Inr customer"
    and "sessions_create E (session_request E ([] :: 'a cart_item_scheme list) customer) = Inr session"
  shows "paymentProcess E ([] :: 'a cart_item_scheme list) ident st =
           Inr (st\<lparr>response := Some (Reply 200 (Json_url (s_url session)))\<rparr>) \<and>
         sp_line_items (session_request E ([] :: 'a cart_item_scheme list) customer) = [] \<and>
         sp_customer (session_request E ([] :: 'a cart_item_scheme list) customer) = c_id customer"
  using assms
  by (simp add: paymentProcess_def customer_request_def orderData_def send_def
      session_request_def line_items_def)

theorem paymentProcess_empty_cart_witness:
  "find (\<lambda>u. u_id u = ''B1'') (users sample_state) = Some \<lparr>u_id = ''B1'', u_email = ''b1@shop.example''\<rparr> \<and>
   response sample_state = None \<and>
   JSON_stringify sample_env [] = ''[]'' \<and>
   paymentProcess sample_env ([] :: cart_item list) ''B1'' sample_state =
     Inr (sample_state\<lparr>response := Some (Reply 200 (Json_url ''https://checkout.example/cs_1''))\<rparr>)"
proof -
  let ?u = "\<lparr>u_id = ''B1'', u_email = ''b1@shop.example''\<rparr>"
  let ?c = "\<lparr>c_id = ''cus_1'', c_email = ''b1@shop.example'', c_cart = Some ''[]''\<rparr>"
  have a: "find (\<lambda>u. u_id u = ''B1'') (users sample_state) = Some ?u"
    by (simp add: sample_state_def)
  have b: "response sample_state = None"
    by (simp add: sample_state_def)
  have s: "JSON_stringify sample_env [] = ''[]''"
    by (simp add: sample_env_def)
  have c: "customers_create sample_env
             \<lparr>cp_email = u_email ?u, cp_cart = JSON_stringify sample_env []\<rparr> = Inr ?c"
    by (simp add: sample_env_def)
  have d: "sessions_create sample_env (session_request sample_env ([] :: cart_item list) ?c) = Inr sample_session"
    by (simp add: sample_env_def)
  from paymentProcess_empty_cart [OF a b c d] a b s show ?thesis
    by (simp add: sample_session_def)
qed

section \<open>Properties of checkOutSession\<close>

subsection \<open>Basic facts\<close>

lemma send_keeps [simp]:
  "orders (send r st) = orders st"
  "products (send r st) = products st"
  "users (send r st) = users st"
  by (simp_all add: send_def)

lemma send_fresh: "response st = None \<Longrightarrow> response (send r st) = Some r"
  by (simp add: send_def)

lemma send_sent: "response st = Some r' \<Longrightarrow> send r st = st"
  by (simp add: send_def)

lemma findByIdAndUpdate_keeps [simp]:
  "orders (findByIdAndUpdate i s st) = orders st"
  "users (findByIdAndUpdate i s st) = users st"
  "response (findByIdAndUpdate i s st) = response st"
  by (simp_all add: findByIdAndUpdate_def split: option.splits)

lemma OrderModel_create_keeps [simp]:
  "orders (OrderModel_create ord st) = orders st @ [ord]"
  "products (OrderModel_create ord st) = products st"
  "users (OrderModel_create ord st) = users st"
  "response (OrderModel_create ord st) = response st"
  by (simp_all add: OrderModel_create_def)

lemma findOrder_eligible: "findOrder ctr st \<noteq> None \<longleftrightarrow> eligible (l_id ctr) (l_userId ctr) (orders st)"
  by (auto simp: findOrder_def eligible_def find_None_iff list_ex_iff)

lemma findOrder_Some_eligible:
  "(\<exists>ord. findOrder ctr st = Some ord) \<longleftrightarrow> eligible (l_id ctr) (l_userId ctr) (orders st)"
  using findOrder_eligible[of ctr st] by simp

text \<open>What one operation of a callback does to the store, case by case.\<close>

lemma resume_cases:
  assumes "resume data b t st = (t', st')"
  obtains
    (idle) "t' = t" "st' = st" "held t = None"
  | (threw) s where "b" "t' = Failed s" "st' = send (Reply 500 (Json_string ''Server internal error'')) st"
      "held t \<noteq> None"
  | (looked) ctr where "\<not> b" "t = FindOrder ctr" "st' = st"
      "t' = Create ctr (eligible (l_id ctr) (l_userId ctr) (orders st))"
  | (created) ctr r where "\<not> b" "t = Create ctr r" "t' = FindProduct ctr"
      "st' = OrderModel_create (new_order data ctr r) st"
  | (absent) ctr where "\<not> b" "t = FindProduct ctr" "products st (l_id ctr) = None"
      "t' = Finished" "st' = st"
  | (read) ctr product where "\<not> b" "t = FindProduct ctr" "products st (l_id ctr) = Some product"
      "t' = Update ctr (max (p_stock product - l_quantity ctr) 0)" "st' = st"
  | (updated) ctr stock where "\<not> b" "t = Update ctr stock" "t' = Finished"
      "st' = findByIdAndUpdate (l_id ctr) stock st"
proof (cases t)
  case (FindOrder ctr)
  show ?thesis
  proof (cases b)
    case True
    with FindOrder assms show ?thesis by (intro threw[of AtFindOrder]) (simp_all add: caught_def)
  next
    case False
    with FindOrder assms show ?thesis by (intro looked[of ctr]) (auto simp: findOrder_Some_eligible)
  qed
next
  case (Create ctr r)
  show ?thesis
  proof (cases b)
    case True
    with Create assms show ?thesis by (intro threw[of AtCreate]) (simp_all add: caught_def)
  next
    case False
    with Create assms show ?thesis by (intro created[of ctr r]) auto
  qed
next
  case (FindProduct ctr)
  show ?thesis
  proof (cases b)
    case True
    with FindProduct assms show ?thesis by (intro threw[of AtFindProduct]) (simp_all add: caught_def)
  next
    case False
    show ?thesis
    proof (cases "products st (l_id ctr)")
      case None
      with False FindProduct assms show ?thesis by (intro absent[of ctr]) auto
    next
      case (Some product)
      with False FindProduct assms show ?thesis by (intro read[of ctr product]) auto
    qed
  qed
next
  case (Update ctr stock)
  show ?thesis
  proof (cases b)
    case True
    with Update assms show ?thesis by (intro threw[of AtUpdate]) (simp_all add: caught_def)
  next
    case False
    with Update assms show ?thesis by (intro updated[of ctr stock]) auto
  qed
next
  case Finished
  with assms show ?thesis by (intro idle) auto
next
  case (Failed s)
  with assms show ?thesis by (intro idle) auto
qed

lemma run_invariant:
  assumes "run data sched ts st = (ts', st')" and "I ts st"
    and "\<And>i b ts st t st'. I ts st \<Longrightarrow> i < length ts \<Longrightarrow> resume data b (ts ! i) st = (t, st')
           \<Longrightarrow> I (ts[i := t]) st'"
  shows "I ts' st'"
  using assms(1,2)
proof (induction sched arbitrary: ts st)
  case Nil
  then show ?case by simp
next
  case (Cons a sched)
  obtain i b where a: "a = (i, b)" by (cases a)
  show ?case
  proof (cases "i < length ts")
    case True
    obtain t st1 where r: "resume data b (ts ! i) st = (t, st1)" by (cases "resume data b (ts ! i) st")
    from Cons.prems(1) a True r have "run data sched (ts[i := t]) st1 = (ts', st')" by simp
    moreover have "I (ts[i := t]) st1" using assms(3)[OF Cons.prems(2) True r] .
    ultimately show ?thesis by (rule Cons.IH)
  next
    case False
    with Cons.prems(1) a have "run data sched ts st = (ts', st')" by simp
    then show ?thesis using Cons.prems(2) by (rule Cons.IH)
  qed
qed

lemma run_append:
  "run data (s1 @ s2) ts st = (case run data s1 ts st of (ts', st') \<Rightarrow> run data s2 ts' st')"
  by (induction s1 arbitrary: ts st) (auto split: prod.splits)

lemma run_length: "run data sched ts st = (ts', st') \<Longrightarrow> length ts' = length ts"
  by (rule run_invariant[where I = "\<lambda>ts' _. length ts' = length ts"]) auto

lemma in_set_updateD: "x \<in> set (ts[i := t]) \<Longrightarrow> x = t \<or> x \<in> set ts"
  using set_update_subset_insert[of ts i t] by auto

lemma resume_held:
  "resume data b t st = (t', st') \<Longrightarrow> held t' = Some ctr \<Longrightarrow> held t = Some ctr"
  by (erule resume_cases) auto

text \<open>The line a callback holds is one of the event's lines.\<close>

lemma run_held:
  assumes "run data sched ts st = (ts', st')"
    and "\<forall>t\<in>set ts. \<forall>ctr. held t = Some ctr \<longrightarrow> ctr \<in> L"
  shows "\<forall>t\<in>set ts'. \<forall>ctr. held t = Some ctr \<longrightarrow> ctr \<in> L"
  using assms(1,2)
proof (rule run_invariant[where I = "\<lambda>ts st. \<forall>t\<in>set ts. \<forall>ctr. held t = Some ctr \<longrightarrow> ctr \<in> L"], goal_cases)
  case (1 i b ts st t st')
  show ?case
  proof (intro ballI allI impI)
    fix x ctr assume x: "x \<in> set (ts[i := t])" and h: "held x = Some ctr"
    from in_set_updateD[OF x] show "ctr \<in> L"
    proof
      assume "x = t"
      with h resume_held[OF 1(3)] have "held (ts ! i) = Some ctr" by simp
      with 1(1,2) show ?thesis by (meson nth_mem)
    next
      assume "x \<in> set ts"
      with 1(1) h show ?thesis by blast
    qed
  qed
qed

subsection \<open>The response\<close>

lemma resume_response:
  "resume data b t st = (t', st') \<Longrightarrow> response st = Some r \<Longrightarrow> response st' = Some r"
  by (erule resume_cases) (auto simp: send_sent)

lemma run_response:
  assumes "run data sched ts st = (ts', st')" and "response st = Some r"
  shows "response st' = Some r"
  using assms
  by (rule run_invariant[where I = "\<lambda>ts st. response st = Some r"]) (rule resume_response)

subsection \<open>The orders\<close>

lemma resume_made:
  "resume data b t st = (t', st') \<Longrightarrow> length (orders st') + made t = length (orders st) + made t'"
  by (cases t) (auto simp: caught_def split: if_splits option.splits)

lemma sum_made_update:
  "i < length ts \<Longrightarrow> sum_list (map made (ts[i := t])) + made (ts ! i) = sum_list (map made ts) + made t"
  by (induction ts arbitrary: i) (auto split: nat.splits)

lemma run_made:
  assumes "run data sched ts st = (ts', st')"
  shows "length (orders st') + sum_list (map made ts) = length (orders st) + sum_list (map made ts')"
  using assms
proof (induction sched arbitrary: ts st)
  case Nil
  then show ?case by simp
next
  case (Cons a sched)
  obtain i b where a: "a = (i, b)" by (cases a)
  show ?case
  proof (cases "i < length ts")
    case True
    obtain t st1 where r: "resume data b (ts ! i) st = (t, st1)" by (cases "resume data b (ts ! i) st")
    from Cons.prems a True r have "run data sched (ts[i := t]) st1 = (ts', st')" by simp
    from Cons.IH[OF this] resume_made[OF r] sum_made_update[OF True, of t]
    show ?thesis by linarith
  next
    case False
    with Cons.prems a have "run data sched ts st = (ts', st')" by simp
    from Cons.IH[OF this] show ?thesis .
  qed
qed

lemma sum_made_start: "sum_list (map (\<lambda>l. made (FindOrder l)) ls) = 0"
  by simp

lemma sum_made_finished: "\<forall>t\<in>set ts. t = Finished \<Longrightarrow> sum_list (map made ts) = length ts"
  by (induction ts) auto

lemma forEach_orders_count:
  assumes "forEach data sched ls st = (ts', st')" and "\<forall>t\<in>set ts'. t = Finished"
  shows "length (orders st') = length (orders st) + length ls"
proof -
  from assms(1) have r: "run data sched (map FindOrder ls) st = (ts', st')" by (simp add: forEach_def)
  from run_length[OF r] have "length ts' = length ls" by simp
  with run_made[OF r] sum_made_start[of ls] sum_made_finished[OF assms(2)] show ?thesis
    by (simp add: comp_def)
qed

lemma fresh_orders_refl: "fresh_orders data ls ords0 ords0"
  by (simp add: fresh_orders_def)

lemma fresh_orders_eligible:
  assumes "fresh_orders data ls ords0 ords"
  shows "eligible p u ords = eligible p u ords0"
proof -
  from assms obtain new where n: "ords = ords0 @ new"
    and f: "\<forall>ord\<in>set new. \<exists>ctr\<in>set ls. ord = new_order data ctr (eligible (l_id ctr) (l_userId ctr) ords0)"
    by (auto simp: fresh_orders_def)
  have "eligible p u new \<Longrightarrow> eligible p u ords0"
  proof -
    assume "eligible p u new"
    then obtain ord where o: "ord \<in> set new" "o_productId ord = p" "o_userId ord = u" "o_review ord"
      by (auto simp: eligible_def list_ex_iff)
    with f obtain ctr where "ord = new_order data ctr (eligible (l_id ctr) (l_userId ctr) ords0)" by blast
    with o show ?thesis by (simp add: new_order_def)
  qed
  moreover have "eligible p u ords = (eligible p u ords0 \<or> eligible p u new)"
    by (auto simp: n eligible_def list_ex_iff)
  ultimately show ?thesis by blast
qed

lemma fresh_orders_snoc:
  assumes "fresh_orders data ls ords0 ords" "ctr \<in> set ls"
  shows "fresh_orders data ls ords0 (ords @ [new_order data ctr (eligible (l_id ctr) (l_userId ctr) ords0)])"
  using assms unfolding fresh_orders_def by auto

lemma run_fresh_orders:
  assumes "run data sched ts st = (ts', st')"
    and "\<forall>t\<in>set ts. \<forall>ctr. held t = Some ctr \<longrightarrow> ctr \<in> set ls"
    and "\<forall>t\<in>set ts. \<forall>ctr r. t = Create ctr r \<longrightarrow> r = eligible (l_id ctr) (l_userId ctr) ords0"
    and "fresh_orders data ls ords0 (orders st)"
  shows "fresh_orders data ls ords0 (orders st')"
proof -
  let ?I = "\<lambda>ts st. (\<forall>t\<in>set ts. \<forall>ctr. held t = Some ctr \<longrightarrow> ctr \<in> set ls) \<and>
     (\<forall>t\<in>set ts. \<forall>ctr r. t = Create ctr r \<longrightarrow> r = eligible (l_id ctr) (l_userId ctr) ords0) \<and>
     fresh_orders data ls ords0 (orders st)"
  have "?I ts' st'"
  proof (rule run_invariant[where I = ?I, OF assms(1)], goal_cases)
    case 1
    from assms(2-4) show ?case by simp
  next
    case (2 i b ts st t st')
    then have h: "\<forall>t\<in>set ts. \<forall>ctr. held t = Some ctr \<longrightarrow> ctr \<in> set ls"
      and c: "\<forall>t\<in>set ts. \<forall>ctr r. t = Create ctr r \<longrightarrow> r = eligible (l_id ctr) (l_userId ctr) ords0"
      and f: "fresh_orders data ls ords0 (orders st)" by auto
    from 2(2) have mem: "ts ! i \<in> set ts" by simp
    have h': "\<forall>x\<in>set (ts[i := t]). \<forall>ctr. held x = Some ctr \<longrightarrow> ctr \<in> set ls"
      using h mem resume_held[OF 2(3)] by (auto dest!: in_set_updateD)
    from 2(3) have "(\<forall>ctr r. t = Create ctr r \<longrightarrow> r = eligible (l_id ctr) (l_userId ctr) ords0) \<and>
        fresh_orders data ls ords0 (orders st')"
    proof (cases rule: resume_cases)
      case idle
      with c f mem show ?thesis by auto
    next
      case (threw s)
      with f show ?thesis by simp
    next
      case (looked ctr)
      with f fresh_orders_eligible[OF f] show ?thesis by simp
    next
      case (created ctr r)
      with mem c h have "r = eligible (l_id ctr) (l_userId ctr) ords0" "ctr \<in> set ls" by auto
      with created fresh_orders_snoc[OF f] show ?thesis by simp
    next
      case (absent ctr)
      with f show ?thesis by simp
    next
      case (read ctr product)
      with f show ?thesis by simp
    next
      case (updated ctr stock)
      with f show ?thesis by simp
    qed
    then have "\<forall>x\<in>set (ts[i := t]). \<forall>ctr r. x = Create ctr r \<longrightarrow> r = eligible (l_id ctr) (l_userId ctr) ords0"
      and "fresh_orders data ls ords0 (orders st')"
      using c by (auto dest!: in_set_updateD)
    with h' show ?case by simp
  qed
  then show ?thesis by simp
qed

lemma forEach_fresh_orders:
  assumes "forEach data sched ls st = (ts', st')"
  shows "fresh_orders data ls (orders st) (orders st')"
proof -
  from assms have r: "run data sched (map FindOrder ls) st = (ts', st')" by (simp add: forEach_def)
  show ?thesis
    by (rule run_fresh_orders[OF r]) (auto simp: fresh_orders_refl)
qed

subsection \<open>The products\<close>

lemma stock_only_refl: "stock_only P P"
proof -
  have "\<exists>stock. product = product\<lparr>p_stock := stock\<rparr>" for product :: product
    by (rule exI[of _ "p_stock product"]) simp
  then show ?thesis
    by (auto simp: stock_only_def split: option.splits)
qed

lemma stock_only_update:
  assumes "stock_only P0 (products st)"
  shows "stock_only P0 (products (findByIdAndUpdate ident stock st))"
  unfolding stock_only_def
proof
  fix i
  from assms have a: "case P0 i of None \<Rightarrow> products st i = None
      | Some product \<Rightarrow> (\<exists>stock. products st i = Some (product\<lparr>p_stock := stock\<rparr>))"
    by (simp add: stock_only_def)
  show "case P0 i of None \<Rightarrow> products (findByIdAndUpdate ident stock st) i = None
      | Some product \<Rightarrow> (\<exists>s. products (findByIdAndUpdate ident stock st) i = Some (product\<lparr>p_stock := s\<rparr>))"
  proof (cases "P0 i")
    case None
    with a show ?thesis by (auto simp: findByIdAndUpdate_def split: option.splits)
  next
    case (Some product)
    with a obtain s where "products st i = Some (product\<lparr>p_stock := s\<rparr>)" by auto
    with Some show ?thesis by (auto simp: findByIdAndUpdate_def split: option.splits)
  qed
qed

lemma findByIdAndUpdate_other:
  "i \<noteq> ident \<Longrightarrow> products (findByIdAndUpdate ident stock st) i = products st i"
  by (simp add: findByIdAndUpdate_def split: option.splits)

lemma resume_products:
  assumes "resume data b t st = (t', st')"
  shows "users st' = users st"
    and "stock_only P0 (products st) \<Longrightarrow> stock_only P0 (products st')"
    and "\<forall>ctr. held t = Some ctr \<longrightarrow> l_id ctr \<noteq> i \<Longrightarrow> products st' i = products st i"
  using assms
  by (cases rule: resume_cases; simp add: stock_only_update findByIdAndUpdate_other)+

lemma run_products:
  assumes "run data sched ts st = (ts', st')"
    and "\<forall>t\<in>set ts. \<forall>ctr. held t = Some ctr \<longrightarrow> ctr \<in> set ls"
  shows "users st' = users st"
    and "stock_only (products st) (products st')"
    and "i \<notin> l_id ` set ls \<Longrightarrow> products st' i = products st i"
proof -
  let ?I = "\<lambda>ts' st'. (\<forall>t\<in>set ts'. \<forall>ctr. held t = Some ctr \<longrightarrow> ctr \<in> set ls) \<and>
     users st' = users st \<and> stock_only (products st) (products st') \<and>
     (i \<notin> l_id ` set ls \<longrightarrow> products st' i = products st i)"
  have "?I ts' st'"
  proof (rule run_invariant[where I = ?I, OF assms(1)], goal_cases)
    case 1
    from assms(2) show ?case by (simp add: stock_only_refl)
  next
    case (2 j b ts1 st1 t st2)
    from 2(2) have mem: "ts1 ! j \<in> set ts1" by simp
    have h': "\<forall>x\<in>set (ts1[j := t]). \<forall>ctr. held x = Some ctr \<longrightarrow> ctr \<in> set ls"
      using 2(1) mem resume_held[OF 2(3)] by (auto dest!: in_set_updateD)
    have "i \<notin> l_id ` set ls \<Longrightarrow> \<forall>ctr. held (ts1 ! j) = Some ctr \<longrightarrow> l_id ctr \<noteq> i"
      using 2(1) mem by auto
    with resume_products(1)[OF 2(3)] resume_products(2)[OF 2(3), of "products st"]
      resume_products(3)[OF 2(3), of i] 2(1) h' show ?case by simp
  qed
  then show "users st' = users st" "stock_only (products st) (products st')"
    "i \<notin> l_id ` set ls \<Longrightarrow> products st' i = products st i" by simp_all
qed

text \<open>Every stock value that a callback writes is at least zero.\<close>

lemma run_stock_nonneg:
  assumes "run data sched ts st = (ts', st')"
    and "\<forall>t\<in>set ts. \<forall>ctr stock. t = Update ctr stock \<longrightarrow> 0 \<le> stock"
    and "products st i = Some product" "0 \<le> p_stock product"
    and "products st' i = Some product'"
  shows "0 \<le> p_stock product'"
proof -
  let ?I = "\<lambda>ts' st'. (\<forall>t\<in>set ts'. \<forall>ctr stock. t = Update ctr stock \<longrightarrow> 0 \<le> stock) \<and>
     (\<forall>p. products st' i = Some p \<longrightarrow> 0 \<le> p_stock p)"
  have "?I ts' st'"
  proof (rule run_invariant[where I = ?I, OF assms(1)], goal_cases)
    case 1
    from assms(2-4) show ?case by simp
  next
    case (2 j b ts1 st1 t st2)
    from 2(2) have mem: "ts1 ! j \<in> set ts1" by simp
    from 2(3) have "(\<forall>ctr stock. t = Update ctr stock \<longrightarrow> 0 \<le> stock) \<and>
        (\<forall>p. products st2 i = Some p \<longrightarrow> 0 \<le> p_stock p)"
    proof (cases rule: resume_cases)
      case (updated ctr stock)
      with 2(1) mem have "0 \<le> stock" by auto
      with updated 2(1) show ?thesis
        by (auto simp: findByIdAndUpdate_def split: option.splits if_splits)
    qed (use 2(1) mem in auto)
    with 2(1) show ?case by (auto dest!: in_set_updateD)
  qed
  with assms(5) show ?thesis by simp
qed

subsection \<open>Callbacks one after another\<close>

lemma run_callback:
  assumes "i < length ts" "ts ! i = FindOrder ctr"
  shows "run data (replicate 4 (i, False)) ts st = (ts[i := Finished], callback data ctr st)"
proof -
  have r: "replicate 4 (i, False) = [(i, False), (i, False), (i, False), (i, False)]"
    by (simp add: numeral_eq_Suc)
  show ?thesis
    using assms unfolding r
    by (cases "products st (l_id ctr)") (simp_all add: callback_def Let_def)
qed

lemma upt_add_Suc: "[n ..< n + Suc m] = n # [Suc n ..< Suc n + m]"
  by (simp add: upt_conv_Cons)

lemma run_sequential:
  "run data (concat (map (\<lambda>i. replicate 4 (i, False)) [length pre ..< length pre + length ls]))
     (pre @ map FindOrder ls) st
   = (pre @ replicate (length ls) Finished, foldl (\<lambda>st ctr. callback data ctr st) st ls)"
proof (induction ls arbitrary: pre st)
  case Nil
  then show ?case by simp
next
  case (Cons ctr ls)
  have u: "[length pre ..< length pre + length (ctr # ls)]
      = length pre # [length (pre @ [Finished]) ..< length (pre @ [Finished]) + length ls]"
    using upt_add_Suc[of "length pre" "length ls"] by simp
  have c: "run data (replicate 4 (length pre, False)) (pre @ map FindOrder (ctr # ls)) st
      = ((pre @ [Finished]) @ map FindOrder ls, callback data ctr st)"
    using run_callback[of "length pre" "pre @ map FindOrder (ctr # ls)" ctr data st] by simp
  define rest where "rest = concat (map (\<lambda>i. replicate 4 (i, False))
      [length (pre @ [Finished]) ..< length (pre @ [Finished]) + length ls])"
  have sched: "concat (map (\<lambda>i. replicate 4 (i, False)) [length pre ..< length pre + length (ctr # ls)])
      = replicate 4 (length pre, False) @ rest"
    unfolding u rest_def by (simp only: list.map concat.simps)
  have IH: "run data rest ((pre @ [Finished]) @ map FindOrder ls) (callback data ctr st)
      = ((pre @ [Finished]) @ replicate (length ls) Finished,
         foldl (\<lambda>st ctr. callback data ctr st) (callback data ctr st) ls)"
    unfolding rest_def by (rule Cons.IH)
  show ?case
    unfolding sched run_append c prod.case IH by (simp add: replicate_app_Cons_same)
qed

lemma forEach_sequential:
  "forEach data (sequential (length ls)) ls st
   = (replicate (length ls) Finished, foldl (\<lambda>st ctr. callback data ctr st) st ls)"
  using run_sequential[of data "[]" ls st] by (simp add: forEach_def sequential_def)

lemma requested_nonneg: "\<forall>ctr\<in>set ls. 0 \<le> l_quantity ctr \<Longrightarrow> 0 \<le> requested i ls"
  by (induction ls) (auto simp: requested_def)

lemma requested_Cons:
  "requested i (ctr # ls) = (if l_id ctr = i then l_quantity ctr else 0) + requested i ls"
  by (simp add: requested_def)

lemma requested_absent: "i \<notin> l_id ` set ls \<Longrightarrow> requested i ls = 0"
  by (induction ls) (auto simp: requested_def)

lemma callback_products:
  "products (callback data ctr st) =
     (case products st (l_id ctr) of
        None \<Rightarrow> products st
      | Some p \<Rightarrow> (products st)(l_id ctr \<mapsto> p\<lparr>p_stock := max (p_stock p - l_quantity ctr) 0\<rparr>))"
  by (simp add: callback_def Let_def findByIdAndUpdate_def split: option.splits)

lemma foldl_callback_stock:
  assumes "\<forall>ctr\<in>set ls. 0 \<le> l_quantity ctr" "products st i = Some p"
  shows "products (foldl (\<lambda>st ctr. callback data ctr st) st ls) i =
           Some (p\<lparr>p_stock := (if i \<in> l_id ` set ls then max 0 (p_stock p - requested i ls)
                                else p_stock p)\<rparr>)"
  using assms
proof (induction ls arbitrary: st p)
  case Nil
  then show ?case by simp
next
  case (Cons ctr ls)
  from Cons.prems(1) have q: "0 \<le> l_quantity ctr" and rest: "\<forall>ctr\<in>set ls. 0 \<le> l_quantity ctr"
    by simp_all
  note R = requested_nonneg[OF rest, of i]
  show ?case
  proof (cases "l_id ctr = i")
    case True
    let ?p = "p\<lparr>p_stock := max (p_stock p - l_quantity ctr) 0\<rparr>"
    from True Cons.prems(2) have "products (callback data ctr st) i = Some ?p"
      by (simp add: callback_products)
    from Cons.IH[OF rest this] True R q requested_absent[of i ls] show ?thesis
      by (auto simp: requested_Cons max_def)
  next
    case False
    with Cons.prems(2) have "products (callback data ctr st) i = Some p"
      by (simp add: callback_products split: option.splits)
    from Cons.IH[OF rest this] False show ?thesis
      by (simp add: requested_Cons)
  qed
qed

subsection \<open>A product named by one line only\<close>

lemma run_tracks:
  assumes run: "run data sched ts st = (ts', st')"
    and k: "k < length ls"
    and len: "length ts = length ls"
    and pos: "\<forall>j<length ls. \<forall>c. held (ts ! j) = Some c \<longrightarrow> c = ls ! j"
    and others: "\<forall>j<length ls. j \<noteq> k \<longrightarrow> l_id (ls ! j) \<noteq> l_id (ls ! k)"
    and tr: "tracks p (l_quantity (ls ! k)) (ts ! k) (products st (l_id (ls ! k)))"
  shows "tracks p (l_quantity (ls ! k)) (ts' ! k) (products st' (l_id (ls ! k)))"
proof -
  let ?i = "l_id (ls ! k)" and ?q = "l_quantity (ls ! k)"
  let ?I = "\<lambda>ts st. length ts = length ls \<and>
     (\<forall>j<length ls. \<forall>c. held (ts ! j) = Some c \<longrightarrow> c = ls ! j) \<and>
     tracks p ?q (ts ! k) (products st ?i)"
  have "?I ts' st'"
  proof (rule run_invariant[where I = ?I, OF run], goal_cases)
    case 1
    from len pos tr show ?case by simp
  next
    case (2 j b ts1 st1 t st2)
    then have len1: "length ts1 = length ls"
      and pos1: "\<forall>j<length ls. \<forall>c. held (ts1 ! j) = Some c \<longrightarrow> c = ls ! j"
      and tr1: "tracks p ?q (ts1 ! k) (products st1 ?i)"
      and j: "j < length ls" and r: "resume data b (ts1 ! j) st1 = (t, st2)"
      by simp_all
    have pos2: "\<forall>m<length ls. \<forall>c. held (ts1[j := t] ! m) = Some c \<longrightarrow> c = ls ! m"
    proof (intro allI impI)
      fix m c assume m: "m < length ls" and h: "held (ts1[j := t] ! m) = Some c"
      show "c = ls ! m"
      proof (cases "m = j")
        case True
        with h len1 j have "held t = Some c" by simp
        from resume_held[OF r this] pos1 j True show ?thesis by simp
      next
        case False
        with h have "held (ts1 ! m) = Some c" by simp
        with pos1 m show ?thesis by simp
      qed
    qed
    have tr2: "tracks p ?q (ts1[j := t] ! k) (products st2 ?i)"
    proof (cases "j = k")
      case False
      have "\<forall>c. held (ts1 ! j) = Some c \<longrightarrow> l_id c \<noteq> ?i"
        using pos1 others j False by auto
      from resume_products(3)[OF r this] have "products st2 ?i = products st1 ?i" .
      with tr1 False show ?thesis by simp
    next
      case True
      with len1 k have upd: "ts1[j := t] ! k = t" by simp
      from r have "tracks p ?q t (products st2 ?i)"
      proof (cases rule: resume_cases)
        case idle
        with tr1 True show ?thesis by simp
      next
        case (threw s)
        then show ?thesis by simp
      next
        case (looked ctr)
        with tr1 True show ?thesis by simp
      next
        case (created ctr r)
        with tr1 True show ?thesis by simp
      next
        case (absent ctr)
        with pos1 j True have "ctr = ls ! k" by simp
        with absent tr1 True show ?thesis by simp
      next
        case (read ctr product)
        with pos1 j True have "ctr = ls ! k" by simp
        with read tr1 True show ?thesis by simp
      next
        case (updated ctr stock)
        with pos1 j True have "ctr = ls ! k" by simp
        with updated tr1 True show ?thesis by (simp add: findByIdAndUpdate_def)
      qed
      with upd show ?thesis by simp
    qed
    from len1 pos2 tr2 show ?case by simp
  qed
  then show ?thesis by simp
qed

lemma requested_distinct:
  "distinct (map l_id ls) \<Longrightarrow> ctr \<in> set ls \<Longrightarrow> requested (l_id ctr) ls = l_quantity ctr"
proof (induction ls)
  case Nil
  then show ?case by simp
next
  case (Cons a ls)
  show ?case
  proof (cases "ctr = a")
    case True
    with Cons.prems(1) have "l_id a \<notin> l_id ` set ls" by simp
    with True requested_absent[of "l_id a" ls] show ?thesis by (simp add: requested_Cons)
  next
    case False
    with Cons.prems have in_ls: "ctr \<in> set ls" and "l_id a \<noteq> l_id ctr" by auto
    with Cons.IH Cons.prems(1) show ?thesis by (simp add: requested_Cons)
  qed
qed

lemma forEach_distinct_stock:
  assumes f: "forEach data sched ls st = (ts', st')" and fin: "\<forall>t\<in>set ts'. t = Finished"
    and d: "distinct (map l_id ls)" and p: "products st i = Some p" and i: "i \<in> l_id ` set ls"
  shows "products st' i = Some (p\<lparr>p_stock := max 0 (p_stock p - requested i ls)\<rparr>)"
proof -
  from i obtain k where k: "k < length ls" and ik: "i = l_id (ls ! k)"
    by (auto simp: in_set_conv_nth)
  from f have r: "run data sched (map FindOrder ls) st = (ts', st')"
    by (simp add: forEach_def)
  have others: "\<forall>j<length ls. j \<noteq> k \<longrightarrow> l_id (ls ! j) \<noteq> l_id (ls ! k)"
  proof (intro allI impI)
    fix j assume "j < length ls" "j \<noteq> k"
    with nth_eq_iff_index_eq[OF d, of j k] k show "l_id (ls ! j) \<noteq> l_id (ls ! k)"
      by simp
  qed
  have "tracks p (l_quantity (ls ! k)) (ts' ! k) (products st' (l_id (ls ! k)))"
    by (rule run_tracks[OF r k _ _ others]) (use k p ik in simp_all)
  moreover from run_length[OF r] k fin have "ts' ! k = Finished"
    by (metis length_map nth_mem)
  moreover from requested_distinct[OF d, of "ls ! k"] k
  have "requested i ls = l_quantity (ls ! k)" by (simp add: ik)
  ultimately show ?thesis by (simp add: ik max.commute)
qed

subsection \<open>Every line once\<close>

lemma done_lines_start: "done_lines (map FindOrder ls) ls = {#}"
  by (induction ls) auto

lemma done_lines_finished:
  "length ts = length ls \<Longrightarrow> \<forall>t\<in>set ts. t = Finished \<Longrightarrow> done_lines ts ls = mset ls"
  by (induction ts ls rule: list_induct2) auto

lemma done_lines_update:
  "length ts = length ls \<Longrightarrow> j < length ls \<Longrightarrow>
   done_lines (ts[j := t]) ls + (if made (ts ! j) = 1 then {#ls ! j#} else {#})
     = done_lines ts ls + (if made t = 1 then {#ls ! j#} else {#})"
proof (induction ts ls arbitrary: j rule: list_induct2)
  case Nil
  then show ?case by simp
next
  case (Cons t' ts c ls)
  show ?case
  proof (cases j)
    case 0
    then show ?thesis by simp
  next
    case (Suc m)
    with Cons.prems have "m < length ls" by simp
    from Cons.IH[OF this] Suc show ?thesis by (auto split: if_splits)
  qed
qed

lemma made_le_1: "made t = 0 \<or> made t = 1"
  by (cases t) auto

text \<open>With every callback finished, the orders added are the orders of the lines, each
  once.\<close>

lemma run_orders_exact:
  fixes data ls ords0
  defines "f \<equiv> \<lambda>ctr. new_order data ctr (eligible (l_id ctr) (l_userId ctr) ords0)"
  assumes run: "run data sched ts st = (ts', st')"
    and len: "length ts = length ls"
    and pos: "\<forall>j<length ls. \<forall>c. held (ts ! j) = Some c \<longrightarrow> c = ls ! j"
    and flags: "\<forall>t\<in>set ts. \<forall>ctr r. t = Create ctr r \<longrightarrow> r = eligible (l_id ctr) (l_userId ctr) ords0"
    and fresh: "fresh_orders data ls ords0 (orders st)"
    and cnt: "mset (drop (length ords0) (orders st)) = image_mset f (done_lines ts ls)"
  shows "mset (drop (length ords0) (orders st')) = image_mset f (done_lines ts' ls)"
proof -
  let ?I = "\<lambda>ts st. length ts = length ls \<and>
     (\<forall>j<length ls. \<forall>c. held (ts ! j) = Some c \<longrightarrow> c = ls ! j) \<and>
     (\<forall>t\<in>set ts. \<forall>ctr r. t = Create ctr r \<longrightarrow> r = eligible (l_id ctr) (l_userId ctr) ords0) \<and>
     fresh_orders data ls ords0 (orders st) \<and>
     mset (drop (length ords0) (orders st)) = image_mset f (done_lines ts ls)"
  have "?I ts' st'"
  proof (rule run_invariant[where I = ?I, OF run], goal_cases)
    case 1
    from len pos flags fresh cnt show ?case by simp
  next
    case (2 j b ts1 st1 t st2)
    then have len1: "length ts1 = length ls"
      and pos1: "\<forall>j<length ls. \<forall>c. held (ts1 ! j) = Some c \<longrightarrow> c = ls ! j"
      and flags1: "\<forall>t\<in>set ts1. \<forall>ctr r. t = Create ctr r \<longrightarrow> r = eligible (l_id ctr) (l_userId ctr) ords0"
      and fresh1: "fresh_orders data ls ords0 (orders st1)"
      and cnt1: "mset (drop (length ords0) (orders st1)) = image_mset f (done_lines ts1 ls)"
      and j: "j < length ls" and r: "resume data b (ts1 ! j) st1 = (t, st2)"
      by simp_all
    from j len1 have mem: "ts1 ! j \<in> set ts1" by simp
    from fresh1 have le: "length ords0 \<le> length (orders st1)"
      by (auto simp: fresh_orders_def)
    have pos2: "\<forall>m<length ls. \<forall>c. held (ts1[j := t] ! m) = Some c \<longrightarrow> c = ls ! m"
    proof (intro allI impI)
      fix m c assume m: "m < length ls" and h: "held (ts1[j := t] ! m) = Some c"
      show "c = ls ! m"
      proof (cases "m = j")
        case True
        with h len1 j have "held t = Some c" by simp
        from resume_held[OF r this] pos1 j True show ?thesis by simp
      next
        case False
        with h have "held (ts1 ! m) = Some c" by simp
        with pos1 m show ?thesis by simp
      qed
    qed
    note upd = done_lines_update[OF len1 j, of t]
    have same: "made t = made (ts1 ! j)" if "orders st2 = orders st1"
      using resume_made[OF r] that by simp
    from r have step: "(\<forall>ctr r. t = Create ctr r \<longrightarrow> r = eligible (l_id ctr) (l_userId ctr) ords0) \<and>
        fresh_orders data ls ords0 (orders st2) \<and>
        mset (drop (length ords0) (orders st2)) = image_mset f (done_lines (ts1[j := t]) ls)"
    proof (cases rule: resume_cases)
      case idle
      with flags1 fresh1 cnt1 mem show ?thesis by (auto simp: list_update_same_conv[THEN iffD2])
    next
      case (threw s)
      then have "orders st2 = orders st1" by simp
      with same upd cnt1 fresh1 threw show ?thesis by (auto split: if_splits)
    next
      case (looked ctr)
      then have "orders st2 = orders st1" by simp
      with same upd cnt1 fresh1 looked fresh_orders_eligible[OF fresh1] show ?thesis
        by (auto split: if_splits)
    next
      case (created ctr r')
      with mem flags1 have r': "r' = eligible (l_id ctr) (l_userId ctr) ords0" by auto
      from created pos1 j have c: "ctr = ls ! j" by simp
      with j have "ctr \<in> set ls" by simp
      from fresh_orders_snoc[OF fresh1 this] created r'
      have fresh2: "fresh_orders data ls ords0 (orders st2)" by simp
      from created upd have "done_lines (ts1[j := t]) ls = done_lines ts1 ls + {#ls ! j#}"
        by simp
      with created r' c cnt1 le fresh2 show ?thesis
        by (simp add: f_def)
    next
      case (absent ctr)
      then have "orders st2 = orders st1" by simp
      with same upd cnt1 fresh1 absent show ?thesis by (auto split: if_splits)
    next
      case (read ctr product)
      then have "orders st2 = orders st1" by simp
      with same upd cnt1 fresh1 read show ?thesis by (auto split: if_splits)
    next
      case (updated ctr stock)
      then have "orders st2 = orders st1" by simp
      with same upd cnt1 fresh1 updated show ?thesis by (auto split: if_splits)
    qed
    then have "\<forall>x\<in>set (ts1[j := t]). \<forall>ctr r. x = Create ctr r \<longrightarrow> r = eligible (l_id ctr) (l_userId ctr) ords0"
      using flags1 by (auto dest!: in_set_updateD)
    with step len1 pos2 show ?case by simp
  qed
  then show ?thesis by simp
qed

lemma forEach_orders_exact:
  assumes "forEach data sched ls st = (ts', st')" and "\<forall>t\<in>set ts'. t = Finished"
  shows "\<exists>new. orders st' = orders st @ new \<and>
           mset new = mset (map (\<lambda>ctr. new_order data ctr
                                   (eligible (l_id ctr) (l_userId ctr) (orders st))) ls)"
proof -
  from assms(1) have r: "run data sched (map FindOrder ls) st = (ts', st')"
    by (simp add: forEach_def)
  from forEach_fresh_orders[OF assms(1)] obtain new where n: "orders st' = orders st @ new"
    by (auto simp: fresh_orders_def)
  have "mset (drop (length (orders st)) (orders st'))
      = image_mset (\<lambda>ctr. new_order data ctr (eligible (l_id ctr) (l_userId ctr) (orders st)))
          (done_lines ts' ls)"
    by (rule run_orders_exact[OF r]) (auto simp: fresh_orders_refl done_lines_start)
  moreover from run_length[OF r] have "length ts' = length ls" by simp
  ultimately show ?thesis
    using n done_lines_finished[OF _ assms(2), of ls] by simp
qed

subsection \<open>The handler\<close>

lemma checkOutSession_intent:
  assumes "intent E request = Some (event, ls)"
  shows "checkOutSession E sched request st = Inr (forEach event sched ls (send (Reply 200 NoBody) st))"
  using assms
  by (auto simp: intent_def checkOutSession_def split: sum.splits if_splits option.splits)

text \<open>A request whose signature does not verify is answered 400 and nothing else happens;
  a verified event of any other type is answered 200; a verified completed-checkout event
  whose metadata parses is answered 200 whatever the schedule, rejected operations
  included: the acknowledgement is sent before the first operation takes effect, and the
  500 of the \<^verbatim>\<open>catch\<close> block comes too late to replace it.\<close>

lemma signature_failure_400:
  assumes "constructEvent E (rawBody request) (stripe_signature request) (ENDPOINTSECRET E) = Inl msg"
  shows "checkOutSession E sched request st =
           Inr ([], send (Reply 400 (Text (''Webhook Error: '' @ msg))) st)"
  using assms by (simp add: checkOutSession_def)

lemma other_event_ack_200:
  assumes "constructEvent E (rawBody request) (stripe_signature request) (ENDPOINTSECRET E) = Inr event"
    and "e_type event \<noteq> ''checkout.session.completed''"
  shows "checkOutSession E sched request st = Inr ([], send (Reply 200 NoBody) st)"
  using assms by (simp add: checkOutSession_def)

lemma verified_lines_ack_200:
  assumes "intent E request = Some (event, ls)" and "response st = None"
    and "checkOutSession E sched request st = Inr (ts, st')"
  shows "response st' = Some (Reply 200 NoBody)"
proof -
  from assms(1,3) have "run event sched (map FindOrder ls) (send (Reply 200 NoBody) st) = (ts, st')"
    by (simp add: checkOutSession_intent forEach_def)
  then show ?thesis
    by (rule run_response) (simp add: send_fresh assms(2))
qed

subsection \<open>Sample runs\<close>

lemma sequential_1: "sequential (Suc 0) = [(0, False), (0, False), (0, False), (0, False)]"
  by (simp add: sequential_def numeral_eq_Suc)

lemma sequential_2:
  "sequential 2 = [(0, False), (0, False), (0, False), (0, False),
                   (1, False), (1, False), (1, False), (1, False)]"
  by (simp add: sequential_def numeral_eq_Suc)

lemma lockstep_2:
  "lockstep 2 = [(0, False), (1, False), (0, False), (1, False),
                 (0, False), (1, False), (0, False), (1, False)]"
  by (simp add: lockstep_def numeral_eq_Suc)

lemma sample_intent: "intent sample_env sample_request = Some (sample_event, sample_lines)"
  by (simp add: intent_def sample_env_def sample_request_def sample_event_def)

lemma sample_delivery:
  "observe ''P1'' (checkOutSession sample_env (sequential 1) sample_request sample_state) =
     Inr ([Finished], [new_order sample_event (hd sample_lines) False], Some 7,
          Some (Reply 200 NoBody))"
  by (simp add: checkOutSession_intent[OF sample_intent] observe_def forEach_def sequential_1
      sample_lines_def sample_state_def send_def findOrder_def OrderModel_create_def
      findByIdAndUpdate_def sample_product_def)

lemma sample_redelivery:
  "observe ''P1'' (redeliver sample_env (sequential 1) (sequential 1) sample_request sample_state) =
     Inr ([Finished],
          [new_order sample_event (hd sample_lines) False,
           new_order sample_event (hd sample_lines) False],
          Some 4, Some (Reply 200 NoBody))"
  by (simp add: redeliver_def checkOutSession_intent[OF sample_intent] observe_def forEach_def
      sequential_1 sample_lines_def sample_state_def send_def findOrder_def OrderModel_create_def
      findByIdAndUpdate_def sample_product_def new_order_def)

lemma observe_Inr:
  assumes "observe i X = Inr (ts, ords, stock, r)"
  obtains st where "X = Inr (ts, st)" "orders st = ords"
    "map_option p_stock (products st i) = stock" "response st = r"
  using assms by (cases X) (auto simp: observe_def)

subsection \<open>A delivery repeated\<close>

text \<open>Claim C1 fails: the handler keeps no record of the events it has processed. The
  sample event has one line item, three units of product \<^verbatim>\<open>P1\<close>, of which ten are in
  stock. Delivered twice, it leaves two orders for the line item and a stock of four.\<close>

theorem redelivery_counterexample:
  "intent sample_env sample_request = Some (sample_event, sample_lines) \<and>
   observe ''P1'' (Inr ([], sample_state)) = Inr ([], [], Some 10, None) \<and>
   observe ''P1'' (redeliver sample_env (sequential 1) (sequential 1) sample_request sample_state) =
     Inr ([Finished],
          [new_order sample_event (hd sample_lines) False,
           new_order sample_event (hd sample_lines) False],
          Some 4, Some (Reply 200 NoBody))"
  using sample_intent sample_redelivery
  by (simp add: observe_def sample_state_def sample_product_def)

text \<open>Claim C1, amended: every delivery of a completed-checkout event whose callbacks all
  run to completion adds exactly one order per line item of the event, whatever the store
  already holds and whatever the schedule; after the same event has been delivered twice
  the store holds, besides its earlier orders, exactly two orders per line item. The stock
  is decremented at each delivery: with the callbacks of each delivery one after another
  and no negative quantity, a product that the event names ends at
  \<open>max 0 (stock - 2 * requested)\<close>.\<close>

theorem redelivery_repeats:
  assumes "intent E request = Some (event, ls)"
    and "checkOutSession E s1 request st = Inr (ts1, st1)" and "\<forall>t\<in>set ts1. t = Finished"
    and "redeliver E s1 s2 request st = Inr (ts2, st2)" and "\<forall>t\<in>set ts2. t = Finished"
  shows "(\<exists>new. orders st2 = orders st @ new \<and>
            mset new = mset (map (\<lambda>ctr. new_order event ctr
                                    (eligible (l_id ctr) (l_userId ctr) (orders st))) (ls @ ls))) \<and>
         length (orders st2) = length (orders st) + 2 * length ls \<and>
         (s1 = sequential (length ls) \<and> s2 = sequential (length ls) \<and>
          (\<forall>ctr\<in>set ls. 0 \<le> l_quantity ctr) \<longrightarrow>
            (\<forall>i p. products st i = Some p \<and> i \<in> l_id ` set ls \<longrightarrow>
               products st2 i = Some (p\<lparr>p_stock := max 0 (p_stock p - 2 * requested i ls)\<rparr>)))"
proof -
  let ?ack = "send (Reply 200 NoBody)"
  let ?f = "\<lambda>ords ctr. new_order event ctr (eligible (l_id ctr) (l_userId ctr) ords)"
  from assms(1,2) have first: "forEach event s1 ls (?ack st) = (ts1, st1)"
    by (simp add: checkOutSession_intent)
  from assms(1,2,4) have second: "forEach event s2 ls (?ack (st1\<lparr>response := None\<rparr>)) = (ts2, st2)"
    by (simp add: redeliver_def checkOutSession_intent)
  from forEach_orders_exact[OF first assms(3)] obtain new1
    where n1: "orders st1 = orders st @ new1" and m1: "mset new1 = mset (map (?f (orders st)) ls)"
    by auto
  from forEach_orders_exact[OF second assms(5)] obtain new2
    where n2: "orders st2 = orders st1 @ new2" and m2: "mset new2 = mset (map (?f (orders st1)) ls)"
    by auto
  from forEach_fresh_orders[OF first] have "fresh_orders event ls (orders st) (orders st1)"
    by simp
  from fresh_orders_eligible[OF this] have "?f (orders st1) = ?f (orders st)"
    by simp
  with n1 n2 m1 m2
  have exact: "\<exists>new. orders st2 = orders st @ new \<and> mset new = mset (map (?f (orders st)) (ls @ ls))"
    by (intro exI[of _ "new1 @ new2"]) simp
  from forEach_orders_count[OF first assms(3)] forEach_orders_count[OF second assms(5)]
  have count: "length (orders st2) = length (orders st) + 2 * length ls"
    by simp
  have stock: "products st2 i = Some (p\<lparr>p_stock := max 0 (p_stock p - 2 * requested i ls)\<rparr>)"
    if seq: "s1 = sequential (length ls)" "s2 = sequential (length ls)"
      and q: "\<forall>ctr\<in>set ls. 0 \<le> l_quantity ctr"
      and p: "products st i = Some p" and i: "i \<in> l_id ` set ls" for i p
  proof -
    let ?p1 = "p\<lparr>p_stock := max 0 (p_stock p - requested i ls)\<rparr>"
    from first seq(1) have "st1 = foldl (\<lambda>st ctr. callback event ctr st) (?ack st) ls"
      by (simp add: forEach_sequential)
    with foldl_callback_stock[OF q, of "?ack st" i p event] p i
    have p1: "products st1 i = Some ?p1" by simp
    from second seq(2)
    have "st2 = foldl (\<lambda>st ctr. callback event ctr st) (?ack (st1\<lparr>response := None\<rparr>)) ls"
      by (simp add: forEach_sequential)
    with foldl_callback_stock[OF q, of "?ack (st1\<lparr>response := None\<rparr>)" i ?p1 event] p1 i
    have "products st2 i = Some (?p1\<lparr>p_stock := max 0 (p_stock ?p1 - requested i ls)\<rparr>)" by simp
    moreover have "max 0 (max 0 (p_stock p - requested i ls) - requested i ls)
        = max 0 (p_stock p - 2 * requested i ls)"
      using requested_nonneg[OF q, of i] by (simp add: max_def)
    ultimately show ?thesis by simp
  qed
  from exact count stock show ?thesis by blast
qed

theorem redelivery_repeats_witness:
  "intent sample_env sample_request = Some (sample_event, sample_lines) \<and>
   observe ''P1'' (checkOutSession sample_env (sequential 1) sample_request sample_state) =
     Inr ([Finished], [new_order sample_event (hd sample_lines) False], Some 7,
          Some (Reply 200 NoBody)) \<and>
   observe ''P1'' (redeliver sample_env (sequential 1) (sequential 1) sample_request sample_state) =
     Inr ([Finished],
          [new_order sample_event (hd sample_lines) False,
           new_order sample_event (hd sample_lines) False],
          Some 4, Some (Reply 200 NoBody)) \<and>
   length (orders (snd (projr (redeliver sample_env (sequential 1) (sequential 1) sample_request
      sample_state)))) = length (orders sample_state) + 2 * length sample_lines \<and>
   products (snd (projr (redeliver sample_env (sequential 1) (sequential 1) sample_request
      sample_state))) ''P1'' =
     Some (sample_product\<lparr>p_stock := max 0 (p_stock sample_product - 2 * requested ''P1'' sample_lines)\<rparr>)"
proof -
  from sample_delivery obtain st1
    where one: "checkOutSession sample_env (sequential 1) sample_request sample_state = Inr ([Finished], st1)"
    by (rule observe_Inr)
  from sample_redelivery obtain st2
    where two: "redeliver sample_env (sequential 1) (sequential 1) sample_request sample_state
      = Inr ([Finished], st2)"
    by (rule observe_Inr)
  have fin: "\<forall>t\<in>set [Finished]. t = Finished" by simp
  have seq: "sequential 1 = sequential (length sample_lines)" by (simp add: sample_lines_def)
  have q: "\<forall>ctr\<in>set sample_lines. 0 \<le> l_quantity ctr" by (simp add: sample_lines_def)
  have p: "products sample_state ''P1'' = Some sample_product" by (simp add: sample_state_def)
  have i: "''P1'' \<in> l_id ` set sample_lines" by (simp add: sample_lines_def)
  note t = redelivery_repeats[OF sample_intent one fin two fin]
  from t have "length (orders st2) = length (orders sample_state) + 2 * length sample_lines"
    by (rule conjunct2[THEN conjunct1])
  moreover from t[THEN conjunct2, THEN conjunct2] seq q p i
  have "products st2 ''P1'' =
      Some (sample_product\<lparr>p_stock := max 0 (p_stock sample_product - 2 * requested ''P1'' sample_lines)\<rparr>)"
    by blast
  ultimately have "length (orders st2) = length (orders sample_state) + 2 * length sample_lines"
    and "products st2 ''P1'' =
      Some (sample_product\<lparr>p_stock := max 0 (p_stock sample_product - 2 * requested ''P1'' sample_lines)\<rparr>)"
    by simp_all
  with sample_intent sample_delivery sample_redelivery two show ?thesis by simp
qed

subsection \<open>The stock after an event\<close>

lemma two_sizes_lockstep:
  "observe ''P1'' (Inr (forEach sample_event (lockstep 2) two_sizes sample_state)) =
     Inr ([Finished, Finished],
          [new_order sample_event (two_sizes ! 0) False, new_order sample_event (two_sizes ! 1) False],
          Some 6, None)"
  by (simp add: observe_def forEach_def lockstep_2 two_sizes_def sample_state_def findOrder_def
      OrderModel_create_def findByIdAndUpdate_def sample_product_def new_order_def)

lemma two_sizes_sequential:
  "observe ''P1'' (Inr (forEach sample_event (sequential 2) two_sizes sample_state)) =
     Inr ([Finished, Finished],
          [new_order sample_event (two_sizes ! 0) False, new_order sample_event (two_sizes ! 1) False],
          Some 3, None)"
  by (simp add: observe_def forEach_def sequential_2 two_sizes_def sample_state_def findOrder_def
      OrderModel_create_def findByIdAndUpdate_def sample_product_def new_order_def)

lemma two_sizes_intent:
  "intent sample_env two_sizes_request = Some (two_sizes_event, two_sizes)"
  by (simp add: intent_def sample_env_def two_sizes_request_def two_sizes_event_def)

text \<open>When the callbacks run one after another and no quantity is negative, a product ends
  at its stock less the quantities requested of it, and at zero when that is negative.
  Under every schedule a stock that was not negative stays so.\<close>

lemma stock_sequential:
  assumes "\<forall>ctr\<in>set ls. 0 \<le> l_quantity ctr" and "products st i = Some p"
  shows "products (snd (forEach data (sequential (length ls)) ls st)) i =
           Some (p\<lparr>p_stock := if i \<in> l_id ` set ls then max 0 (p_stock p - requested i ls)
                                else p_stock p\<rparr>)"
  using assms by (simp add: forEach_sequential foldl_callback_stock)

lemma stock_never_negative:
  assumes "forEach data sched ls st = (ts', st')" and "products st i = Some p"
    and "0 \<le> p_stock p" and "products st' i = Some p'"
  shows "0 \<le> p_stock p'"
proof -
  from assms(1) have r: "run data sched (map FindOrder ls) st = (ts', st')"
    by (simp add: forEach_def)
  show ?thesis
    by (rule run_stock_nonneg[OF r, of i p p']) (use assms in auto)
qed

text \<open>Where it does not: two line items of one product, the store answering in the order
  it was asked. Both callbacks read the stock before either writes it, and the second
  write wins: the quantity of the first line is not subtracted at all.\<close>

lemma lockstep_loses_first_decrement:
  assumes "l_id a = i" and "l_id b = i" and "products st i = Some p"
  shows "products (snd (forEach data (lockstep 2) [a, b] st)) i =
           Some (p\<lparr>p_stock := max (p_stock p - l_quantity b) 0\<rparr>)"
  using assms
  by (simp add: forEach_def lockstep_2 OrderModel_create_def findByIdAndUpdate_def)

text \<open>Claim C2 at a completed-checkout event with two line items of product \<^verbatim>\<open>P1\<close>, three
  units in one size and four in another, ten units being in stock. The claim gives
  \<open>max 0 (10 - 7) = 3\<close>, and so does the code when the second callback starts after the
  first has finished. \<^verbatim>\<open>forEach\<close> does not wait for its callback: with the store
  answering in the order it was asked, both callbacks read ten, the writes are seven and
  six, and the product is left with a stock of six.\<close>

theorem two_sizes_lost_update:
  "intent sample_env two_sizes_request = Some (two_sizes_event, two_sizes) \<and>
   requested ''P1'' two_sizes = 7 \<and>
   observe ''P1'' (Inr ([], sample_state)) = Inr ([], [], Some 10, None) \<and>
   observe ''P1'' (checkOutSession sample_env (lockstep 2) two_sizes_request sample_state) =
     Inr ([Finished, Finished],
          [new_order two_sizes_event (two_sizes ! 0) False,
           new_order two_sizes_event (two_sizes ! 1) False],
          Some 6, Some (Reply 200 NoBody)) \<and>
   observe ''P1'' (checkOutSession sample_env (sequential 2) two_sizes_request sample_state) =
     Inr ([Finished, Finished],
          [new_order two_sizes_event (two_sizes ! 0) False,
           new_order two_sizes_event (two_sizes ! 1) False],
          Some 3, Some (Reply 200 NoBody))"
proof -
  have r: "requested ''P1'' two_sizes = 7"
    by (simp add: requested_def two_sizes_def)
  have s: "observe ''P1'' (Inr ([], sample_state)) = Inr ([], [], Some 10, None)"
    by (simp add: observe_def sample_state_def sample_product_def)
  have l: "observe ''P1'' (checkOutSession sample_env (lockstep 2) two_sizes_request sample_state) =
     Inr ([Finished, Finished],
          [new_order two_sizes_event (two_sizes ! 0) False,
           new_order two_sizes_event (two_sizes ! 1) False],
          Some 6, Some (Reply 200 NoBody))"
    by (simp add: checkOutSession_intent[OF two_sizes_intent] observe_def forEach_def lockstep_2
        two_sizes_def sample_state_def send_def findOrder_def OrderModel_create_def
        findByIdAndUpdate_def sample_product_def new_order_def)
  have q: "observe ''P1'' (checkOutSession sample_env (sequential 2) two_sizes_request sample_state) =
     Inr ([Finished, Finished],
          [new_order two_sizes_event (two_sizes ! 0) False,
           new_order two_sizes_event (two_sizes ! 1) False],
          Some 3, Some (Reply 200 NoBody))"
    by (simp add: checkOutSession_intent[OF two_sizes_intent] observe_def forEach_def sequential_2
        two_sizes_def sample_state_def send_def findOrder_def OrderModel_create_def
        findByIdAndUpdate_def sample_product_def new_order_def)
  show ?thesis
    by (intro conjI two_sizes_intent r s l q)
qed

subsection \<open>What a stock update leaves alone\<close>

text \<open>Claim C8: under every schedule, every product of the store is afterwards the product
  it was with at most its \<^verbatim>\<open>stock\<close> changed (title, price, discount, images, sizes,
  colors, category and description are those of before), no product appears or disappears,
  a product that no line item names is unchanged altogether, and the users are untouched.\<close>

theorem stock_update_frame:
  assumes "forEach data sched ls st = (ts', st')"
  shows "users st' = users st \<and>
         (\<forall>i. case products st i of
                 None \<Rightarrow> products st' i = None
               | Some p \<Rightarrow> (\<exists>stock. products st' i = Some (p\<lparr>p_stock := stock\<rparr>))) \<and>
         (\<forall>i. i \<notin> l_id ` set ls \<longrightarrow> products st' i = products st i)"
proof -
  from assms have r: "run data sched (map FindOrder ls) st = (ts', st')"
    by (simp add: forEach_def)
  have h: "\<forall>t\<in>set (map FindOrder ls). \<forall>ctr. held t = Some ctr \<longrightarrow> ctr \<in> set ls"
    by auto
  from run_products(1)[OF r h] run_products(2)[OF r h] run_products(3)[OF r h]
  show ?thesis by (simp add: stock_only_def)
qed

theorem stock_update_frame_witness:
  "observe ''P1'' (Inr (forEach sample_event (lockstep 2) two_sizes sample_state)) =
     Inr ([Finished, Finished],
          [new_order sample_event (two_sizes ! 0) False, new_order sample_event (two_sizes ! 1) False],
          Some 6, None) \<and>
   users (snd (forEach sample_event (lockstep 2) two_sizes sample_state)) = users sample_state \<and>
   ''P2'' \<notin> l_id ` set two_sizes \<and>
   products (snd (forEach sample_event (lockstep 2) two_sizes sample_state)) ''P2''
     = products sample_state ''P2'' \<and>
   (\<exists>stock. products (snd (forEach sample_event (lockstep 2) two_sizes sample_state)) ''P1''
     = Some (sample_product\<lparr>p_stock := stock\<rparr>))"
proof -
  obtain ts' st' where f: "forEach sample_event (lockstep 2) two_sizes sample_state = (ts', st')"
    by (cases "forEach sample_event (lockstep 2) two_sizes sample_state")
  have n: "''P2'' \<notin> l_id ` set two_sizes"
    by (simp add: two_sizes_def)
  have p: "products sample_state ''P1'' = Some sample_product"
    by (simp add: sample_state_def)
  from stock_update_frame[OF f]
  have u: "users st' = users sample_state"
    and a: "\<forall>i. case products sample_state i of
                 None \<Rightarrow> products st' i = None
               | Some p \<Rightarrow> (\<exists>stock. products st' i = Some (p\<lparr>p_stock := stock\<rparr>))"
    and o: "\<forall>i. i \<notin> l_id ` set two_sizes \<longrightarrow> products st' i = products sample_state i"
    by blast+
  from a p have "\<exists>stock. products st' ''P1'' = Some (sample_product\<lparr>p_stock := stock\<rparr>)"
    by (auto dest: spec[of _ "''P1''"])
  with u o n f two_sizes_lockstep show ?thesis by simp
qed

subsection \<open>Review eligibility\<close>

lemma eligible_iff:
  "eligible p u ords \<longleftrightarrow> (\<exists>old\<in>set ords. o_productId old = p \<and> o_userId old = u \<and> o_review old)"
  by (simp add: eligible_def list_ex_iff)

text \<open>Claim C3: the lookup of a callback answers whether the store, at that moment, holds an
  order of the line's product and buyer with \<^verbatim>\<open>review: true\<close>, and the order that the
  callback then creates carries that answer as its flag. The callbacks add nothing but
  orders whose flag repeats the flag of an earlier order of the same pair, so the answer is
  the same at every moment of the event: for every schedule, each order that a delivery adds
  is review-eligible exactly when the store held an eligible order of its product and buyer
  before the delivery.\<close>

theorem review_flag_from_lookup:
  assumes "intent E request = Some (event, ls)"
    and "checkOutSession E sched request st = Inr (ts, st')"
  shows "resume event False (FindOrder ctr) st1 =
           (Create ctr (\<exists>old\<in>set (orders st1).
                          o_productId old = l_id ctr \<and> o_userId old = l_userId ctr \<and> o_review old),
            st1) \<and>
         resume event False (Create ctr reviewStatus) st2 =
           (FindProduct ctr,
            st2\<lparr>orders := orders st2 @
                  [\<lparr>o_productId = l_id ctr, o_userId = l_userId ctr, o_size = l_size ctr,
                    o_color = l_color ctr, o_quantities = l_quantity ctr,
                    o_address = e_address event, o_review = reviewStatus\<rparr>]\<rparr>) \<and>
         (\<exists>new. orders st' = orders st @ new \<and>
            (\<forall>ord\<in>set new.
               o_review ord \<longleftrightarrow>
                 (\<exists>old\<in>set (orders st).
                    o_productId old = o_productId ord \<and> o_userId old = o_userId ord \<and> o_review old)))"
proof (intro conjI)
  show "resume event False (FindOrder ctr) st1 =
           (Create ctr (\<exists>old\<in>set (orders st1).
                          o_productId old = l_id ctr \<and> o_userId old = l_userId ctr \<and> o_review old),
            st1)"
    using findOrder_eligible[of ctr st1] by (simp add: eligible_iff)
  show "resume event False (Create ctr reviewStatus) st2 =
           (FindProduct ctr,
            st2\<lparr>orders := orders st2 @
                  [\<lparr>o_productId = l_id ctr, o_userId = l_userId ctr, o_size = l_size ctr,
                    o_color = l_color ctr, o_quantities = l_quantity ctr,
                    o_address = e_address event, o_review = reviewStatus\<rparr>]\<rparr>)"
    by (simp add: OrderModel_create_def new_order_def)
  let ?ack = "send (Reply 200 NoBody)"
  from assms have "forEach event sched ls (?ack st) = (ts, st')"
    by (simp add: checkOutSession_intent)
  from forEach_fresh_orders[OF this] obtain new where n: "orders st' = orders st @ new"
    and f: "\<forall>ord\<in>set new. \<exists>ctr\<in>set ls.
        ord = new_order event ctr (eligible (l_id ctr) (l_userId ctr) (orders st))"
    by (auto simp: fresh_orders_def)
  have "o_review ord \<longleftrightarrow> (\<exists>old\<in>set (orders st).
        o_productId old = o_productId ord \<and> o_userId old = o_userId ord \<and> o_review old)"
    if "ord \<in> set new" for ord
  proof -
    from f that obtain ctr
      where "ord = new_order event ctr (eligible (l_id ctr) (l_userId ctr) (orders st))"
      by blast
    then show ?thesis by (simp add: new_order_def eligible_iff)
  qed
  with n show "\<exists>new. orders st' = orders st @ new \<and>
            (\<forall>ord\<in>set new.
               o_review ord \<longleftrightarrow>
                 (\<exists>old\<in>set (orders st).
                    o_productId old = o_productId ord \<and> o_userId old = o_userId ord \<and> o_review old))"
    by blast
qed

lemma returning_delivery:
  "observe ''P1'' (checkOutSession sample_env (sequential 1) sample_request returning_state) =
     Inr ([Finished],
          orders returning_state @ [new_order sample_event (hd sample_lines) True], Some 7,
          Some (Reply 200 NoBody))"
  by (simp add: checkOutSession_intent[OF sample_intent] observe_def forEach_def sequential_1
      sample_lines_def returning_state_def sample_state_def send_def findOrder_def
      OrderModel_create_def findByIdAndUpdate_def sample_product_def)

theorem review_flag_from_lookup_witness:
  "intent sample_env sample_request = Some (sample_event, sample_lines) \<and>
   observe ''P1'' (checkOutSession sample_env (sequential 1) sample_request returning_state) =
     Inr ([Finished],
          orders returning_state @ [new_order sample_event (hd sample_lines) True], Some 7,
          Some (Reply 200 NoBody)) \<and>
   fst (resume sample_event False (FindOrder (hd sample_lines)) returning_state)
     = Create (hd sample_lines) True \<and>
   fst (resume sample_event False (FindOrder (hd sample_lines)) sample_state)
     = Create (hd sample_lines) False \<and>
   o_review (last (orders (snd (resume sample_event False (Create (hd sample_lines) True)
      returning_state))))"
proof -
  from returning_delivery obtain st'
    where d: "checkOutSession sample_env (sequential 1) sample_request returning_state
      = Inr ([Finished], st')"
    by (rule observe_Inr)
  note t = review_flag_from_lookup[OF sample_intent d]
  have a: "fst (resume sample_event False (FindOrder (hd sample_lines)) returning_state)
     = Create (hd sample_lines) True"
    using t[of "hd sample_lines" returning_state]
    by (simp add: returning_state_def sample_lines_def)
  have b: "fst (resume sample_event False (FindOrder (hd sample_lines)) sample_state)
     = Create (hd sample_lines) False"
    using t[of "hd sample_lines" sample_state]
    by (simp add: sample_state_def)
  have c: "o_review (last (orders (snd (resume sample_event False (Create (hd sample_lines) True)
      returning_state))))"
    using t[of _ _ True returning_state] by simp
  from sample_intent returning_delivery a b c show ?thesis
    by (intro conjI)
qed

subsection \<open>The buyer of an order\<close>

text \<open>Claim C9: the user found for the request's identifier has that identifier; the
  metadata that \<^verbatim>\<open>paymentProcess\<close> hands to the provider is the serialisation of
  \<^verbatim>\<open>orderData\<close>, and every line of it carries this user's id, whatever the cart elements
  hold. When a completed-checkout event names a customer whose metadata
  is that serialisation, and parsing gives the lines back, every order that the delivery
  adds has this user as its buyer, for every schedule.\<close>

theorem buyer_reference_server_side:
  assumes "find (\<lambda>u. u_id u = ident) (users st0) = Some user"
  shows "u_id user = ident \<and>
         paymentProcess E cart ident st0 =
           (case customers_create E
                   \<lparr>cp_email = u_email user, cp_cart = JSON_stringify E (orderData user cart)\<rparr> of
              Inl msg \<Rightarrow> Inl (ProviderError msg)
            | Inr customer \<Rightarrow>
                (case sessions_create E (session_request E cart customer) of
                   Inl msg \<Rightarrow> Inl (ProviderError msg)
                 | Inr session \<Rightarrow> Inr (send (Reply 200 (Json_url (s_url session))) st0))) \<and>
         cp_cart (customer_request E user cart) = JSON_stringify E (orderData user cart) \<and>
         map l_userId (orderData user cart) = replicate (length cart) (u_id user) \<and>
         (constructEvent E (rawBody request) (stripe_signature request) (ENDPOINTSECRET E) = Inr event \<and>
          e_type event = ''checkout.session.completed'' \<and>
          customers_retrieve E (e_customer event) = Inr customer \<and>
          c_cart customer = Some (cp_cart (customer_request E user cart)) \<and>
          JSON_parse E (JSON_stringify E (orderData user cart)) = Some (orderData user cart) \<and>
          checkOutSession E sched request st = Inr (ts, st') \<longrightarrow>
            (\<exists>new. orders st' = orders st @ new \<and> (\<forall>ord\<in>set new. o_userId ord = u_id user)))"
proof (intro conjI impI)
  from assms show "u_id user = ident"
    by (auto simp: find_Some_iff)
  from assms show "paymentProcess E cart ident st0 =
           (case customers_create E
                   \<lparr>cp_email = u_email user, cp_cart = JSON_stringify E (orderData user cart)\<rparr> of
              Inl msg \<Rightarrow> Inl (ProviderError msg)
            | Inr customer \<Rightarrow>
                (case sessions_create E (session_request E cart customer) of
                   Inl msg \<Rightarrow> Inl (ProviderError msg)
                 | Inr session \<Rightarrow> Inr (send (Reply 200 (Json_url (s_url session))) st0)))"
    by (simp add: paymentProcess_def customer_request_def)
  show "cp_cart (customer_request E user cart) = JSON_stringify E (orderData user cart)"
    by (simp add: customer_request_def)
  show "map l_userId (orderData user cart) = replicate (length cart) (u_id user)"
    by (simp add: orderData_def comp_def map_replicate_const)
  assume a: "constructEvent E (rawBody request) (stripe_signature request) (ENDPOINTSECRET E) = Inr event \<and>
          e_type event = ''checkout.session.completed'' \<and>
          customers_retrieve E (e_customer event) = Inr customer \<and>
          c_cart customer = Some (cp_cart (customer_request E user cart)) \<and>
          JSON_parse E (JSON_stringify E (orderData user cart)) = Some (orderData user cart) \<and>
          checkOutSession E sched request st = Inr (ts, st')"
  then have "intent E request = Some (event, orderData user cart)"
    by (simp add: intent_def customer_request_def)
  with a have "forEach event sched (orderData user cart) (send (Reply 200 NoBody) st) = (ts, st')"
    by (simp add: checkOutSession_intent)
  from forEach_fresh_orders[OF this] obtain new where n: "orders st' = orders st @ new"
    and f: "\<forall>ord\<in>set new. \<exists>ctr\<in>set (orderData user cart).
        ord = new_order event ctr (eligible (l_id ctr) (l_userId ctr) (orders st))"
    by (auto simp: fresh_orders_def)
  have "o_userId ord = u_id user" if "ord \<in> set new" for ord
  proof -
    from f that obtain ctr where "ctr \<in> set (orderData user cart)"
      and "ord = new_order event ctr (eligible (l_id ctr) (l_userId ctr) (orders st))"
      by blast
    then show ?thesis by (auto simp: new_order_def orderData_def)
  qed
  with n show "\<exists>new. orders st' = orders st @ new \<and> (\<forall>ord\<in>set new. o_userId ord = u_id user)"
    by blast
qed

theorem buyer_reference_server_side_witness:
  "find (\<lambda>u. u_id u = ''B1'') (users sample_state) = Some \<lparr>u_id = ''B1'', u_email = ''b1@shop.example''\<rparr> \<and>
   orderData \<lparr>u_id = ''B1'', u_email = ''b1@shop.example''\<rparr> sample_cart = sample_lines \<and>
   cp_cart (customer_request sample_env \<lparr>u_id = ''B1'', u_email = ''b1@shop.example''\<rparr> sample_cart)
     = ''cart'' \<and>
   JSON_parse sample_env ''cart'' = Some sample_lines \<and>
   customers_retrieve sample_env ''cus_1''
     = Inr \<lparr>c_id = ''cus_1'', c_email = ''b1@shop.example'', c_cart = Some ''cart''\<rparr> \<and>
   observe ''P1'' (checkOutSession sample_env (sequential 1) sample_request sample_state) =
     Inr ([Finished], [new_order sample_event (hd sample_lines) False], Some 7,
          Some (Reply 200 NoBody)) \<and>
   map o_userId (orders (snd (projr (checkOutSession sample_env (sequential 1) sample_request
     sample_state)))) = [''B1'']"
proof -
  let ?u = "\<lparr>u_id = ''B1'', u_email = ''b1@shop.example''\<rparr>"
  let ?c = "\<lparr>c_id = ''cus_1'', c_email = ''b1@shop.example'', c_cart = Some ''cart''\<rparr>"
  have u: "find (\<lambda>u. u_id u = ''B1'') (users sample_state) = Some ?u"
    by (simp add: sample_state_def)
  have od: "orderData ?u sample_cart = sample_lines"
    by (simp add: orderData_def sample_cart_def sample_lines_def)
  have blob: "cp_cart (customer_request sample_env ?u sample_cart) = ''cart''"
    by (simp add: customer_request_def od) (simp add: sample_env_def sample_lines_def)
  have parse: "JSON_parse sample_env ''cart'' = Some sample_lines"
    by (simp add: sample_env_def)
  have round: "JSON_parse sample_env (JSON_stringify sample_env (orderData ?u sample_cart))
      = Some (orderData ?u sample_cart)"
    using blob parse by (simp add: customer_request_def od)
  have ev: "constructEvent sample_env (rawBody sample_request) (stripe_signature sample_request)
      (ENDPOINTSECRET sample_env) = Inr sample_event"
    by (simp add: sample_env_def sample_request_def sample_event_def)
  have ty: "e_type sample_event = ''checkout.session.completed''"
    by (simp add: sample_event_def)
  have cu: "customers_retrieve sample_env ''cus_1'' = Inr ?c"
    by (simp add: sample_env_def)
  then have cu': "customers_retrieve sample_env (e_customer sample_event) = Inr ?c"
    by (simp add: sample_event_def)
  have cart: "c_cart ?c = Some (cp_cart (customer_request sample_env ?u sample_cart))"
    by (simp add: blob)
  from sample_delivery obtain st'
    where d: "checkOutSession sample_env (sequential 1) sample_request sample_state = Inr ([Finished], st')"
      and o: "orders st' = [new_order sample_event (hd sample_lines) False]"
    by (rule observe_Inr)
  from buyer_reference_server_side[OF u, of sample_env sample_cart sample_request sample_event ?c
      "sequential 1" sample_state "[Finished]" st'] ev ty cu' cart round d
  obtain new where "orders st' = orders sample_state @ new" "\<forall>ord\<in>set new. o_userId ord = u_id ?u"
    by blast
  then have "map o_userId (orders st') = [''B1'']"
    using o by (auto simp: sample_state_def)
  with u od blob parse cu sample_delivery d show ?thesis
    by simp
qed

subsection \<open>Metadata that does not parse\<close>

text \<open>Claim C5 at a verified completed-checkout event whose customer has no \<^verbatim>\<open>cart\<close>
  metadata: \<^verbatim>\<open>JSON.parse(undefined)\<close> throws outside every \<^verbatim>\<open>try\<close>, the handler's promise
  is rejected before \<^verbatim>\<open>response.send()\<close>, and the handler answers neither 2xx nor 400. The
  lemmas \<open>signature_failure_400\<close>, \<open>other_event_ack_200\<close> and \<open>verified_lines_ack_200\<close>
  above are the parts of the claim that hold.\<close>

theorem verified_event_without_cart_unanswered:
  "constructEvent sample_env (rawBody no_cart_request) (stripe_signature no_cart_request)
     (ENDPOINTSECRET sample_env)
     = Inr \<lparr>e_type = ''checkout.session.completed'', e_customer = ''cus_2'',
            e_address = ''1 Main Street''\<rparr> \<and>
   c_cart (projr (customers_retrieve sample_env ''cus_2'')) = None \<and>
   checkOutSession sample_env sched no_cart_request sample_state = Inl SyntaxError"
  by (simp add: checkOutSession_def sample_env_def no_cart_request_def)

text \<open>Claim C6 at a completed-checkout event whose customer metadata is absent or does not
  parse: the handler throws before it has created an order or touched a product, as the
  claim says, and before it has sent anything: the event is not acknowledged.\<close>

theorem malformed_metadata_rejects:
  assumes "constructEvent E (rawBody request) (stripe_signature request) (ENDPOINTSECRET E) = Inr event"
    and "e_type event = ''checkout.session.completed''"
    and "customers_retrieve E (e_customer event) = Inr customer"
    and "c_cart customer = None \<or> (\<exists>blob. c_cart customer = Some blob \<and> JSON_parse E blob = None)"
  shows "checkOutSession E sched request st = Inl SyntaxError"
  using assms by (auto simp: checkOutSession_def)

theorem malformed_metadata_rejects_witness:
  "constructEvent sample_env (rawBody bad_cart_request) (stripe_signature bad_cart_request)
     (ENDPOINTSECRET sample_env)
     = Inr \<lparr>e_type = ''checkout.session.completed'', e_customer = ''cus_3'',
            e_address = ''1 Main Street''\<rparr> \<and>
   customers_retrieve sample_env ''cus_3''
     = Inr \<lparr>c_id = ''cus_3'', c_email = ''b3@shop.example'', c_cart = Some ''{''\<rparr> \<and>
   JSON_parse sample_env ''{'' = None \<and>
   checkOutSession sample_env (sequential 1) bad_cart_request sample_state = Inl SyntaxError"
proof -
  let ?e = "\<lparr>e_type = ''checkout.session.completed'', e_customer = ''cus_3'',
            e_address = ''1 Main Street''\<rparr>"
  let ?c = "\<lparr>c_id = ''cus_3'', c_email = ''b3@shop.example'', c_cart = Some ''{''\<rparr>"
  have ev: "constructEvent sample_env (rawBody bad_cart_request) (stripe_signature bad_cart_request)
     (ENDPOINTSECRET sample_env) = Inr ?e"
    by (simp add: sample_env_def bad_cart_request_def)
  have ty: "e_type ?e = ''checkout.session.completed''"
    by simp
  have cu: "customers_retrieve sample_env ''cus_3'' = Inr ?c"
    by (simp add: sample_env_def)
  then have cu': "customers_retrieve sample_env (e_customer ?e) = Inr ?c"
    by simp
  have p: "JSON_parse sample_env ''{'' = None"
    by (simp add: sample_env_def)
  then have b: "c_cart ?c = None \<or> (\<exists>blob. c_cart ?c = Some blob \<and> JSON_parse sample_env blob = None)"
    by simp
  from malformed_metadata_rejects[OF ev ty cu' b, of "sequential 1" sample_state] ev cu p
  show ?thesis by simp
qed

end
